theory Spec2Isabelle
  imports Complex_Main "HOL-Library.Word"
begin

section \<open>Numbers, pieces, moves\<close>

text \<open>
  The engine (engine.js) computes with JavaScript numbers. Scores are modelled as
  rationals: every score the engine produces is built from integers by sums, products with
  constants such as 0.5, divisions by 16, 100 and 3200, \<open>Math.max\<close>, \<open>Math.min\<close>,
  \<open>Math.round\<close> and \<open>Math.floor\<close>. Depths, plies and counters are integers. The
  rounding of IEEE doubles is not modelled: the model computes exactly where the engine
  computes in doubles. The two agree as long as every value is a dyadic rational of small
  size, which doubles represent exactly. Where a value is not (the phase weight
  \<open>1 - 2240 / 3200\<close>, say, which is 0.30000000000000004 in doubles and 3/10 here), the
  rounding can decide a comparison with a constant such as 0.3 or a \<open>Math.round\<close> at a
  tie differently. The positions evaluated below only involve dyadic values: their phase
  weights are 23/32, 27/32, 15/16 and 31/32.
\<close>

type_synonym num = rat

definition INFINITY :: num where
  "INFINITY = 9999999"

text \<open>\<open>Math.round\<close> rounds to the nearest integer, a tie going towards plus infinity.\<close>

definition js_round :: "num \<Rightarrow> num" where
  "js_round x = of_int \<lfloor>x + 1 / 2\<rfloor>"

section \<open>Pieces, boards and moves\<close>

datatype color = White | Black

datatype ptype = Pawn | Knight | Bishop | Rook | Queen | King

record piece =
  p_type :: ptype
  p_color :: color

text \<open>\<open>chess.board()\<close>: eight rows of eight squares, row 0 being rank 8.\<close>

type_synonym board = "piece option list list"

text \<open>A verbose move of the move generator.\<close>

record move =
  m_from :: string
  m_to :: string
  m_piece :: ptype
  m_color :: color
  m_captured :: "ptype option"
  m_promotion :: "ptype option"
  m_san :: string

definition PIECE_VALUE :: "ptype \<Rightarrow> int" where
  "PIECE_VALUE t =
     (case t of Pawn \<Rightarrow> 100 | Knight \<Rightarrow> 320 | Bishop \<Rightarrow> 330 | Rook \<Rightarrow> 500
              | Queen \<Rightarrow> 900 | King \<Rightarrow> 20000)"

definition piece_letter :: "ptype \<Rightarrow> char" where
  "piece_letter t =
     (case t of Pawn \<Rightarrow> CHR ''p'' | Knight \<Rightarrow> CHR ''n'' | Bishop \<Rightarrow> CHR ''b''
              | Rook \<Rightarrow> CHR ''r'' | Queen \<Rightarrow> CHR ''q'' | King \<Rightarrow> CHR ''k'')"

section \<open>The position and the move-generation library\<close>

text \<open>
  The engine reads a position through the chess.js object: \<open>board()\<close>, \<open>turn()\<close>,
  \<open>fen()\<close>, \<open>in_check()\<close> and the terminal predicates. A position is the record of what
  these calls return. Threefold repetition and the half-move clock belong to the game the
  object holds, so a position here is the state of that game.
\<close>

record position =
  pos_board :: board
  pos_turn :: color
  pos_fen :: string
  pos_in_check :: bool
  pos_in_checkmate :: bool
  pos_in_stalemate :: bool
  pos_insufficient_material :: bool
  pos_in_threefold_repetition :: bool
  pos_half_moves :: nat

text \<open>
  Modelled from the spec: chess.js, the move-generation library the engine loads
  (\<open>importScripts('chess.js', 'engine.js')\<close>), is not among the source files. Section 6
  of the specification lists its operations; the legal-move list, the position after a
  move and the loading of a FEN are taken as parameters.
  \<^item> \<open>lib_moves\<close> is \<open>chess.moves({verbose: true})\<close>, whose length is that of
    \<open>chess.moves()\<close>;
  \<^item> \<open>lib_make p m\<close> is the position after the legal move \<open>m\<close>;
  \<^item> \<open>lib_load fen\<close> is \<open>new Chess(fen)\<close>, \<open>None\<close> when the constructor throws;
  \<^item> \<open>lib_lmr\<close> is the table \<open>LMR_TABLE\<close>, which engine.js fills with
    \<open>Math.max(1, Math.floor(0.75 + Math.log(d) * Math.log(m + 1) / 2.25))\<close>, a
    floating-point computation with logarithms, and 0 in row 0 and column 0.
\<close>

record chess_lib =
  lib_moves :: "position \<Rightarrow> move list"
  lib_make :: "position \<Rightarrow> move \<Rightarrow> position"
  lib_load :: "string \<Rightarrow> position option"
  lib_lmr :: "nat \<Rightarrow> nat \<Rightarrow> int"

text \<open>
  Modelled from the spec: \<open>in_draw\<close> and \<open>game_over\<close> of chess.js. The evaluator of
  section 4.1 returns 0 on stalemate, insufficient material and threefold repetition, and
  chess.js computes \<open>in_draw()\<close> as the fifty-move rule or stalemate or insufficient
  material or threefold repetition, \<open>game_over()\<close> as any of these or checkmate.
\<close>

definition in_draw :: "position \<Rightarrow> bool" where
  "in_draw p \<longleftrightarrow>
     pos_half_moves p \<ge> 100 \<or> pos_in_stalemate p \<or> pos_insufficient_material p \<or>
     pos_in_threefold_repetition p"

definition game_over :: "position \<Rightarrow> bool" where
  "game_over p \<longleftrightarrow>
     pos_half_moves p \<ge> 100 \<or> pos_in_checkmate p \<or> pos_in_stalemate p \<or>
     pos_insufficient_material p \<or> pos_in_threefold_repetition p"

section \<open>Piece-square tables\<close>

definition PST_p :: "int list" where
  "PST_p =
    [ 0,  0,  0,  0,  0,  0,  0,  0,
     50, 50, 50, 50, 50, 50, 50, 50,
     10, 10, 20, 30, 30, 20, 10, 10,
      5,  5, 10, 25, 25, 10,  5,  5,
      0,  0,  0, 20, 20,  0,  0,  0,
      5, -5,-10,  0,  0,-10, -5,  5,
      5, 10, 10,-20,-20, 10, 10,  5,
      0,  0,  0,  0,  0,  0,  0,  0]"

definition PST_n :: "int list" where
  "PST_n =
    [-50,-40,-30,-30,-30,-30,-40,-50,
     -40,-20,  0,  0,  0,  0,-20,-40,
     -30,  0, 10, 15, 15, 10,  0,-30,
     -30,  5, 15, 20, 20, 15,  5,-30,
     -30,  0, 15, 20, 20, 15,  0,-30,
     -30,  5, 10, 15, 15, 10,  5,-30,
     -40,-20,  0,  5,  5,  0,-20,-40,
     -50,-40,-30,-30,-30,-30,-40,-50]"

definition PST_b :: "int list" where
  "PST_b =
    [-20,-10,-10,-10,-10,-10,-10,-20,
     -10,  0,  0,  0,  0,  0,  0,-10,
     -10,  0,  5, 10, 10,  5,  0,-10,
     -10,  5,  5, 10, 10,  5,  5,-10,
     -10,  0, 10, 10, 10, 10,  0,-10,
     -10, 10, 10, 10, 10, 10, 10,-10,
     -10,  5,  0,  0,  0,  0,  5,-10,
     -20,-10,-10,-10,-10,-10,-10,-20]"

definition PST_r :: "int list" where
  "PST_r =
    [ 0,  0,  0,  0,  0,  0,  0,  0,
      5, 10, 10, 10, 10, 10, 10,  5,
     -5,  0,  0,  0,  0,  0,  0, -5,
     -5,  0,  0,  0,  0,  0,  0, -5,
     -5,  0,  0,  0,  0,  0,  0, -5,
     -5,  0,  0,  0,  0,  0,  0, -5,
     -5,  0,  0,  0,  0,  0,  0, -5,
      0,  0,  0,  5,  5,  0,  0,  0]"

definition PST_q :: "int list" where
  "PST_q =
    [-20,-10,-10, -5, -5,-10,-10,-20,
     -10,  0,  0,  0,  0,  0,  0,-10,
     -10,  0,  5,  5,  5,  5,  0,-10,
      -5,  0,  5,  5,  5,  5,  0, -5,
       0,  0,  5,  5,  5,  5,  0, -5,
     -10,  5,  5,  5,  5,  5,  0,-10,
     -10,  0,  5,  0,  0,  0,  0,-10,
     -20,-10,-10, -5, -5,-10,-10,-20]"

definition PST_k :: "int list" where
  "PST_k =
    [-30,-40,-40,-50,-50,-40,-40,-30,
     -30,-40,-40,-50,-50,-40,-40,-30,
     -30,-40,-40,-50,-50,-40,-40,-30,
     -30,-40,-40,-50,-50,-40,-40,-30,
     -20,-30,-30,-40,-40,-30,-30,-20,
     -10,-20,-20,-20,-20,-20,-20,-10,
      20, 20,  0,  0,  0,  0, 20, 20,
      20, 30, 10,  0,  0, 10, 30, 20]"

definition PST_kE :: "int list" where
  "PST_kE =
    [-50,-40,-30,-20,-20,-30,-40,-50,
     -30,-20,-10,  0,  0,-10,-20,-30,
     -30,-10, 20, 30, 30, 20,-10,-30,
     -30,-10, 30, 40, 40, 30,-10,-30,
     -30,-10, 30, 40, 40, 30,-10,-30,
     -30,-10, 20, 30, 30, 20,-10,-30,
     -30,-30,  0,  0,  0,  0,-30,-30,
     -50,-30,-30,-30,-30,-30,-30,-50]"

definition PST :: "ptype \<Rightarrow> int list" where
  "PST t =
     (case t of Pawn \<Rightarrow> PST_p | Knight \<Rightarrow> PST_n | Bishop \<Rightarrow> PST_b | Rook \<Rightarrow> PST_r
              | Queen \<Rightarrow> PST_q | King \<Rightarrow> PST_k)"

section \<open>Reading the board\<close>

text \<open>
  \<open>board[r][f]\<close> for \<open>r\<close>, \<open>f\<close> in 0..7. The pawn-file maps are read at \<open>f - 1\<close> and
  \<open>f + 1\<close> as well, where JavaScript yields \<open>undefined\<close>; the read is \<open>None\<close> there.
\<close>

definition board_at :: "board \<Rightarrow> int \<Rightarrow> int \<Rightarrow> piece option" where
  "board_at b r f =
     (if 0 \<le> r \<and> r < int (length b) \<and> 0 \<le> f \<and> f < int (length (b ! nat r))
      then b ! nat r ! nat f else None)"

text \<open>The scan \<open>for r = 0..7, for f = 0..7\<close>, with the pieces it meets.\<close>

definition scan :: "(int \<times> int) list" where
  "scan = concat (map (\<lambda>r. map (\<lambda>f. (r, f)) [0..7]) [0..7])"

definition pieces :: "board \<Rightarrow> (int \<times> int \<times> piece) list" where
  "pieces b = List.map_filter (\<lambda>(r, f). map_option (\<lambda>p. (r, f, p)) (board_at b r f)) scan"

text \<open>
  \<open>list[i] || 0\<close> on a list of integers: an index outside the list reads
  \<open>undefined\<close>, which \<open>||\<close> turns into 0.
\<close>

definition nth_or0 :: "int list \<Rightarrow> int \<Rightarrow> int" where
  "nth_or0 xs i = (if 0 \<le> i \<and> i < int (length xs) then xs ! nat i else 0)"

definition indexOf :: "string \<Rightarrow> char \<Rightarrow> int" where
  "indexOf s c = (if c \<in> set s then int (length (takeWhile (\<lambda>x. x \<noteq> c) s)) else - 1)"

text \<open>
  \<open>realSq = 'abcdefgh'[f] + (8 - r)\<close> and \<open>sqIdx\<close>, which reads the file letter and the
  rank digit back. \<open>sqIdx\<close> is only called on such a square name.
\<close>

definition realSq :: "int \<Rightarrow> int \<Rightarrow> string" where
  "realSq r f = [''abcdefgh'' ! nat f, char_of (48 + (8 - r))]"

definition sqIdx :: "string \<Rightarrow> color \<Rightarrow> int" where
  "sqIdx sq c =
     (let f = indexOf ''abcdefgh'' (sq ! 0);
          r = (of_char (sq ! 1) - 48) - 1
      in if c = White then (7 - r) * 8 + f else r * 8 + (7 - f))"

text \<open>
  \<open>wPawnFiles\<close> and \<open>bPawnFiles\<close>: for a file, the ranks of the pawns of one colour in
  scan order. A file without such a pawn has no key in the source; \<open>map[f] || []\<close> is
  the empty list there and \<open>!map[f]\<close> holds exactly when the list is empty.
\<close>

definition pawnFiles :: "board \<Rightarrow> color \<Rightarrow> int \<Rightarrow> int list" where
  "pawnFiles b c f =
     map (\<lambda>r. 8 - r)
       (filter (\<lambda>r. board_at b r f = Some \<lparr>p_type = Pawn, p_color = c\<rparr>) [0..7])"

text \<open>The king's file and rank as the first scan leaves them: the last king met, or -1.\<close>

definition kingFile :: "board \<Rightarrow> color \<Rightarrow> int" where
  "kingFile b c =
     (case filter (\<lambda>(r, f, p). p_type p = King \<and> p_color p = c) (pieces b) of
        [] \<Rightarrow> - 1 | ks \<Rightarrow> fst (snd (last ks)))"

definition kingRank :: "board \<Rightarrow> color \<Rightarrow> int" where
  "kingRank b c =
     (case filter (\<lambda>(r, f, p). p_type p = King \<and> p_color p = c) (pieces b) of
        [] \<Rightarrow> - 1 | ks \<Rightarrow> 8 - fst (last ks))"

definition sgn_of :: "color \<Rightarrow> int" where
  "sgn_of c = (if c = White then 1 else - 1)"

section \<open>Static evaluation: material, piece-square tables, kings\<close>

definition material :: "board \<Rightarrow> color \<Rightarrow> int" where
  "material b c =
     sum_list (map (\<lambda>(r, f, p). if p_color p = c then PIECE_VALUE (p_type p) else 0) (pieces b))"

definition pst_value :: "int \<Rightarrow> int \<Rightarrow> piece \<Rightarrow> int" where
  "pst_value r f p =
     (if p_type p \<noteq> King then PST (p_type p) ! nat (sqIdx (realSq r f) (p_color p)) else 0)"

definition material_pst :: "board \<Rightarrow> int" where
  "material_pst b =
     sum_list (map (\<lambda>(r, f, p). sgn_of (p_color p) * (PIECE_VALUE (p_type p) + pst_value r f p))
                 (pieces b))"

definition count_pieces :: "board \<Rightarrow> color \<Rightarrow> ptype \<Rightarrow> int" where
  "count_pieces b c t =
     int (length (filter (\<lambda>(r, f, p). p_type p = t \<and> p_color p = c) (pieces b)))"

definition bishop_pair :: "board \<Rightarrow> num" where
  "bishop_pair b =
     (let bpOpenScale =
            max (3 / 10) (1 - of_int (count_pieces b White Pawn + count_pieces b Black Pawn) / 16)
      in (if count_pieces b White Bishop \<ge> 2 then js_round (30 * bpOpenScale) else 0)
         - (if count_pieces b Black Bishop \<ge> 2 then js_round (30 * bpOpenScale) else 0))"

definition endgameW_of :: "board \<Rightarrow> num" where
  "endgameW_of b =
     (let totalMat = material b White + material b Black - PIECE_VALUE King * 2
      in max 0 (1 - of_int totalMat / 3200))"

definition king_pst :: "board \<Rightarrow> num \<Rightarrow> num" where
  "king_pst b endgameW =
     sum_list (map (\<lambda>(r, f, p).
        if p_type p = King then
          (let idx = sqIdx (realSq r f) (p_color p);
               kMid = PST_k ! nat idx;
               kEnd = PST_kE ! nat idx;
               kVal = of_int kMid * (1 - endgameW) + of_int kEnd * endgameW
           in of_int (sgn_of (p_color p)) * kVal)
        else 0) (pieces b))"

section \<open>Static evaluation: pawn structure\<close>

type_synonym pawn_files = "int \<Rightarrow> int list"

definition passedBonus :: "int list" where
  "passedBonus = [0, 0, 10, 20, 35, 55, 80, 120]"

definition CANDIDATE_BONUS :: "int list" where
  "CANDIDATE_BONUS = [0, 0, 5, 10, 20, 35, 0, 0]"

text \<open>The loop \<open>for (df = -1; df <= 1; df++)\<close> that clears \<open>passed\<close>.\<close>

definition w_passed :: "pawn_files \<Rightarrow> int \<Rightarrow> int \<Rightarrow> bool" where
  "w_passed bpf f rank \<longleftrightarrow>
     \<not> (\<exists>df \<in> set [- 1, 0, 1]. 0 \<le> f + df \<and> f + df \<le> 7 \<and> (\<exists>br \<in> set (bpf (f + df)). br > rank))"

definition b_passed :: "pawn_files \<Rightarrow> int \<Rightarrow> int \<Rightarrow> bool" where
  "b_passed wpf f rank \<longleftrightarrow>
     \<not> (\<exists>df \<in> set [- 1, 0, 1]. 0 \<le> f + df \<and> f + df \<le> 7 \<and> (\<exists>wr \<in> set (wpf (f + df)). wr < rank))"

text \<open>The loop \<open>for (df = -1; df <= 1; df += 2)\<close> that counts pawns on the adjacent files.\<close>

definition adj_count :: "pawn_files \<Rightarrow> int \<Rightarrow> (int \<Rightarrow> bool) \<Rightarrow> int" where
  "adj_count pf f P =
     sum_list (map (\<lambda>df. if f + df < 0 \<or> f + df > 7 then 0
                         else int (length (filter P (pf (f + df))))) [- 1, 1])"

text \<open>\<open>for f = 0..7, for rank of (files[f] || [])\<close>, summing a term per pawn.\<close>

definition pawn_sum :: "pawn_files \<Rightarrow> (int \<Rightarrow> int \<Rightarrow> num) \<Rightarrow> num" where
  "pawn_sum pf g = sum_list (concat (map (\<lambda>f. map (g f) (pf f)) [0..7]))"

definition pe_passed_w :: "pawn_files \<Rightarrow> pawn_files \<Rightarrow> num \<Rightarrow> int \<Rightarrow> int \<Rightarrow> num" where
  "pe_passed_w wpf bpf endgameW f rank =
     (if w_passed bpf f rank
      then js_round (of_int (nth_or0 passedBonus rank) * (1 / 2 + 1 / 2 * endgameW))
      else if filter (\<lambda>br. br > rank) (bpf f) = []
      then (let supporters = adj_count wpf f (\<lambda>wr. wr \<ge> rank - 1 \<and> wr \<le> rank + 2);
                stoppers = adj_count bpf f (\<lambda>br. br > rank)
            in if supporters > stoppers then of_int (nth_or0 CANDIDATE_BONUS rank) else 0)
      else 0)"

definition pe_passed_b :: "pawn_files \<Rightarrow> pawn_files \<Rightarrow> num \<Rightarrow> int \<Rightarrow> int \<Rightarrow> num" where
  "pe_passed_b wpf bpf endgameW f rank =
     (if b_passed wpf f rank
      then js_round (of_int (nth_or0 passedBonus (9 - rank)) * (1 / 2 + 1 / 2 * endgameW))
      else if filter (\<lambda>wr. wr < rank) (wpf f) = []
      then (let supporters = adj_count bpf f (\<lambda>br. br \<le> rank + 1 \<and> br \<ge> rank - 2);
                stoppers = adj_count wpf f (\<lambda>wr. wr < rank)
            in if supporters > stoppers then of_int (nth_or0 CANDIDATE_BONUS (9 - rank)) else 0)
      else 0)"

definition pe_doubled :: "pawn_files \<Rightarrow> pawn_files \<Rightarrow> num" where
  "pe_doubled wpf bpf =
     sum_list (map (\<lambda>f.
        (let wc = int (length (wpf f)); bc = int (length (bpf f))
         in of_int ((if wc > 1 then - ((wc - 1) * 25) else 0)
                  + (if bc > 1 then (bc - 1) * 25 else 0)))) [0..7])"

definition pe_rook_files :: "board \<Rightarrow> pawn_files \<Rightarrow> pawn_files \<Rightarrow> num" where
  "pe_rook_files b wpf bpf =
     sum_list (map (\<lambda>(r, f, p).
        if p_type p \<noteq> Rook then 0
        else (let own = (if p_color p = White then wpf f else bpf f);
                  opp = (if p_color p = White then bpf f else wpf f)
              in if length own = 0 \<and> length opp = 0 then of_int (sgn_of (p_color p) * 25)
                 else if length own = 0 then of_int (sgn_of (p_color p) * 12)
                 else 0)) (pieces b))"

definition rook_behind_w :: "board \<Rightarrow> int \<Rightarrow> int \<Rightarrow> bool" where
  "rook_behind_w b f rank \<longleftrightarrow>
     (\<exists>rr \<in> set [0..7]. board_at b rr f = Some \<lparr>p_type = Rook, p_color = White\<rparr> \<and> 8 - rr < rank)"

definition rook_behind_b :: "board \<Rightarrow> int \<Rightarrow> int \<Rightarrow> bool" where
  "rook_behind_b b f rank \<longleftrightarrow>
     (\<exists>rr \<in> set [0..7]. board_at b rr f = Some \<lparr>p_type = Rook, p_color = Black\<rparr> \<and> 8 - rr > rank)"

definition pe_rook_behind :: "board \<Rightarrow> pawn_files \<Rightarrow> pawn_files \<Rightarrow> num \<Rightarrow> num" where
  "pe_rook_behind b wpf bpf endgameW =
     pawn_sum wpf (\<lambda>f rank. if w_passed bpf f rank \<and> rook_behind_w b f rank
                             then js_round (15 * endgameW) else 0)
     - pawn_sum bpf (\<lambda>f rank. if b_passed wpf f rank \<and> rook_behind_b b f rank
                               then js_round (15 * endgameW) else 0)"

definition pe_backward :: "pawn_files \<Rightarrow> pawn_files \<Rightarrow> num" where
  "pe_backward wpf bpf =
     pawn_sum wpf (\<lambda>f rank.
        (let hasSupport = (\<exists>wr \<in> set (wpf (f - 1)). wr \<le> rank) \<or> (\<exists>wr \<in> set (wpf (f + 1)). wr \<le> rank);
             stopControlled = (\<exists>br \<in> set (bpf (f - 1)). br = rank + 1)
                            \<or> (\<exists>br \<in> set (bpf (f + 1)). br = rank + 1);
             blocked = (\<exists>br \<in> set (bpf f). br = rank + 1)
         in if \<not> hasSupport \<and> stopControlled \<and> blocked then - 15 else 0))
     + pawn_sum bpf (\<lambda>f rank.
        (let hasSupport = (\<exists>br \<in> set (bpf (f - 1)). br \<ge> rank) \<or> (\<exists>br \<in> set (bpf (f + 1)). br \<ge> rank);
             stopControlled = (\<exists>wr \<in> set (wpf (f - 1)). wr = rank - 1)
                            \<or> (\<exists>wr \<in> set (wpf (f + 1)). wr = rank - 1);
             blocked = (\<exists>wr \<in> set (wpf f). wr = rank - 1)
         in if \<not> hasSupport \<and> stopControlled \<and> blocked then 15 else 0))"

definition pe_isolated :: "pawn_files \<Rightarrow> pawn_files \<Rightarrow> num" where
  "pe_isolated wpf bpf =
     sum_list (map (\<lambda>f.
        (let wc = int (length (wpf f)); bc = int (length (bpf f))
         in of_int ((if wc > 0 \<and> wpf (f - 1) = [] \<and> wpf (f + 1) = [] then - (wc * 20) else 0)
                  + (if bc > 0 \<and> bpf (f - 1) = [] \<and> bpf (f + 1) = [] then bc * 20 else 0))))
       [0..7])"

definition pe_chain :: "pawn_files \<Rightarrow> pawn_files \<Rightarrow> num" where
  "pe_chain wpf bpf =
     pawn_sum wpf (\<lambda>f rank.
        if rank + 1 \<in> set (wpf (f - 1)) \<or> rank + 1 \<in> set (wpf (f + 1)) then 10 else 0)
     - pawn_sum bpf (\<lambda>f rank.
        if rank - 1 \<in> set (bpf (f - 1)) \<or> rank - 1 \<in> set (bpf (f + 1)) then 10 else 0)"

definition pe_connected :: "pawn_files \<Rightarrow> pawn_files \<Rightarrow> num" where
  "pe_connected wpf bpf =
     pawn_sum wpf (\<lambda>f rank.
        if (f > 0 \<and> (\<exists>wr \<in> set (wpf (f - 1)). \<bar>wr - rank\<bar> \<le> 1))
           \<or> (f < 7 \<and> (\<exists>wr \<in> set (wpf (f + 1)). \<bar>wr - rank\<bar> \<le> 1)) then 8 else 0)
     - pawn_sum bpf (\<lambda>f rank.
        if (f > 0 \<and> (\<exists>br \<in> set (bpf (f - 1)). \<bar>br - rank\<bar> \<le> 1))
           \<or> (f < 7 \<and> (\<exists>br \<in> set (bpf (f + 1)). \<bar>br - rank\<bar> \<le> 1)) then 8 else 0)"

definition pe_king_proximity ::
  "pawn_files \<Rightarrow> pawn_files \<Rightarrow> int \<Rightarrow> int \<Rightarrow> int \<Rightarrow> int \<Rightarrow> num \<Rightarrow> num" where
  "pe_king_proximity wpf bpf wKingFile wKingRank bKingFile bKingRank endgameW =
     (if endgameW > 3 / 10 then
        pawn_sum wpf (\<lambda>f rank.
          if w_passed bpf f rank \<and> wKingFile \<ge> 0 then
            (let wDist = max \<bar>wKingFile - f\<bar> \<bar>wKingRank - rank\<bar>;
                 bDist = (if bKingFile \<ge> 0 then max \<bar>bKingFile - f\<bar> \<bar>bKingRank - rank\<bar> else 7)
             in js_round (of_int (bDist - wDist) * 5 * endgameW))
          else 0)
        - pawn_sum bpf (\<lambda>f rank.
          if b_passed wpf f rank \<and> bKingFile \<ge> 0 then
            (let bDist = max \<bar>bKingFile - f\<bar> \<bar>bKingRank - rank\<bar>;
                 wDist = (if wKingFile \<ge> 0 then max \<bar>wKingFile - f\<bar> \<bar>wKingRank - rank\<bar> else 7)
             in js_round (of_int (wDist - bDist) * 5 * endgameW))
          else 0)
      else 0)"

definition pe_shield ::
  "pawn_files \<Rightarrow> pawn_files \<Rightarrow> int \<Rightarrow> int \<Rightarrow> int \<Rightarrow> int \<Rightarrow> num \<Rightarrow> num" where
  "pe_shield wpf bpf wKingFile wKingRank bKingFile bKingRank endgameW =
     (if endgameW < 6 / 10 then
        (let shieldMg = js_round (8 * (1 - endgameW))
         in (if wKingFile \<ge> 0 then
               sum_list (map (\<lambda>df.
                 (let sf = wKingFile + df
                  in if sf < 0 \<or> sf > 7 then 0
                     else if (\<exists>rk \<in> set (wpf sf). rk = wKingRank + 1 \<or> rk = wKingRank + 2)
                     then shieldMg else 0)) [- 1, 0, 1])
             else 0)
            - (if bKingFile \<ge> 0 then
               sum_list (map (\<lambda>df.
                 (let sf = bKingFile + df
                  in if sf < 0 \<or> sf > 7 then 0
                     else if (\<exists>rk \<in> set (bpf sf). rk = bKingRank - 1 \<or> rk = bKingRank - 2)
                     then shieldMg else 0)) [- 1, 0, 1])
             else 0))
      else 0)"

definition pawnEval ::
  "board \<Rightarrow> pawn_files \<Rightarrow> pawn_files \<Rightarrow> int \<Rightarrow> int \<Rightarrow> int \<Rightarrow> int \<Rightarrow> num \<Rightarrow> num" where
  "pawnEval b wpf bpf wKingFile wKingRank bKingFile bKingRank endgameW =
     (pawn_sum wpf (pe_passed_w wpf bpf endgameW) - pawn_sum bpf (pe_passed_b wpf bpf endgameW))
     + pe_doubled wpf bpf
     + pe_rook_files b wpf bpf
     + pe_rook_behind b wpf bpf endgameW
     + pe_backward wpf bpf
     + pe_isolated wpf bpf
     + pe_chain wpf bpf
     + pe_connected wpf bpf
     + pe_king_proximity wpf bpf wKingFile wKingRank bKingFile bKingRank endgameW
     + pe_shield wpf bpf wKingFile wKingRank bKingFile bKingRank endgameW"

section \<open>Static evaluation: king zone, tropism, rooks, knights, space\<close>

definition ATTACK_WEIGHT :: "ptype \<Rightarrow> int" where
  "ATTACK_WEIGHT t =
     (case t of Pawn \<Rightarrow> 1 | Knight \<Rightarrow> 2 | Bishop \<Rightarrow> 2 | Rook \<Rightarrow> 3 | Queen \<Rightarrow> 5 | King \<Rightarrow> 0)"

text \<open>The weights of the pieces of colour \<open>c\<close> inside the 3x3 zone of the king at \<open>(kf, kr)\<close>.\<close>

definition zone_attacks :: "board \<Rightarrow> color \<Rightarrow> int \<Rightarrow> int \<Rightarrow> int" where
  "zone_attacks b c kf kr =
     sum_list (map (\<lambda>(r, f, p).
        if p_type p \<noteq> King \<and> p_color p = c \<and> kf \<ge> 0 \<and> \<bar>f - kf\<bar> \<le> 1 \<and> \<bar>(8 - r) - kr\<bar> \<le> 1
        then ATTACK_WEIGHT (p_type p) else 0) (pieces b))"

definition penalty :: "int \<Rightarrow> int" where
  "penalty att =
     (if att = 0 then 0 else if att = 1 then 10 else if att = 2 then 25
      else if att = 3 then 45 else 70 + (att - 3) * 15)"

definition kingAttackScore :: "board \<Rightarrow> int \<Rightarrow> int \<Rightarrow> int \<Rightarrow> int \<Rightarrow> num \<Rightarrow> num" where
  "kingAttackScore b wKingFile wKingRank bKingFile bKingRank endgameW =
     (if endgameW > 7 / 10 then 0
      else (let wZoneAttacks = zone_attacks b Black wKingFile wKingRank;
                bZoneAttacks = zone_attacks b White bKingFile bKingRank
            in js_round (of_int (penalty bZoneAttacks - penalty wZoneAttacks) * (1 - endgameW))))"

definition TROPISM_W :: "ptype \<Rightarrow> int" where
  "TROPISM_W t =
     (case t of Knight \<Rightarrow> 3 | Bishop \<Rightarrow> 2 | Rook \<Rightarrow> 2 | Queen \<Rightarrow> 4 | Pawn \<Rightarrow> 0 | King \<Rightarrow> 0)"

text \<open>A piece without a weight (\<open>if (!w) continue\<close>) adds nothing.\<close>

definition tropism_sum :: "board \<Rightarrow> int \<Rightarrow> int \<Rightarrow> int \<Rightarrow> int \<Rightarrow> int" where
  "tropism_sum b wKingFile wKingRank bKingFile bKingRank =
     sum_list (map (\<lambda>(r, f, p).
        (let w = TROPISM_W (p_type p); pr = 8 - r
         in if w = 0 then 0
            else (if p_color p = White \<and> bKingFile \<ge> 0
                  then max 0 ((7 - max \<bar>f - bKingFile\<bar> \<bar>pr - bKingRank\<bar>) * w) else 0)
               - (if p_color p = Black \<and> wKingFile \<ge> 0
                  then max 0 ((7 - max \<bar>f - wKingFile\<bar> \<bar>pr - wKingRank\<bar>) * w) else 0)))
       (pieces b))"

definition kingTropismScore :: "board \<Rightarrow> int \<Rightarrow> int \<Rightarrow> int \<Rightarrow> int \<Rightarrow> num" where
  "kingTropismScore b wKingFile wKingRank bKingFile bKingRank =
     js_round (of_int (tropism_sum b wKingFile wKingRank bKingFile bKingRank) * (1 / 2))"

definition rook_seventh :: "board \<Rightarrow> pawn_files \<Rightarrow> pawn_files \<Rightarrow> int \<Rightarrow> int \<Rightarrow> num" where
  "rook_seventh b wpf bpf wKingRank bKingRank =
     sum_list (map (\<lambda>(r, f, p).
        if p_type p \<noteq> Rook then 0
        else (let rank = 8 - r
              in (if p_color p = White \<and> rank = 7 \<and>
                     ((7 \<in> set (bpf f) \<or> (\<exists>g \<in> set [0..7]. 7 \<in> set (bpf g))) \<or> bKingRank = 8)
                  then 25 else 0)
               - (if p_color p = Black \<and> rank = 2 \<and>
                     ((\<exists>g \<in> set [0..7]. 2 \<in> set (wpf g)) \<or> wKingRank = 1)
                  then 25 else 0))) (pieces b))"

definition knight_outpost :: "board \<Rightarrow> pawn_files \<Rightarrow> pawn_files \<Rightarrow> num" where
  "knight_outpost b wpf bpf =
     sum_list (map (\<lambda>(r, f, p).
        if p_type p \<noteq> Knight then 0
        else (let rank = 8 - r
              in (if p_color p = White \<and> rank \<ge> 5 \<and>
                     (rank - 1 \<in> set (wpf (f - 1)) \<or> rank - 1 \<in> set (wpf (f + 1))) \<and>
                     \<not> ((\<exists>br \<in> set (bpf (f - 1)). br < rank) \<or> (\<exists>br \<in> set (bpf (f + 1)). br < rank))
                  then 20 else 0)
               - (if p_color p = Black \<and> rank \<le> 4 \<and>
                     (rank + 1 \<in> set (bpf (f - 1)) \<or> rank + 1 \<in> set (bpf (f + 1))) \<and>
                     \<not> ((\<exists>wr \<in> set (wpf (f - 1)). wr > rank) \<or> (\<exists>wr \<in> set (wpf (f + 1)). wr > rank))
                  then 20 else 0))) (pieces b))"

definition space_score :: "pawn_files \<Rightarrow> pawn_files \<Rightarrow> num \<Rightarrow> num" where
  "space_score wpf bpf endgameW =
     (let wSpace = sum_list (concat (map (\<lambda>f. map (\<lambda>rank. rank - 2) (wpf f)) [2..5]));
          bSpace = sum_list (concat (map (\<lambda>f. map (\<lambda>rank. 7 - rank) (bpf f)) [2..5]));
          spaceMgW = max 0 (1 - endgameW) * (1 / 2)
      in js_round (of_int (wSpace - bSpace) * spaceMgW))"

definition tempo :: "color \<Rightarrow> num \<Rightarrow> num" where
  "tempo turn endgameW =
     (let tempoVal = js_round (15 - 10 * endgameW)
      in if turn = White then tempoVal else - tempoVal)"

text \<open>The double loop \<open>i < j\<close> over the rooks of one colour, counting the pairs on one line.\<close>

fun battery_pairs :: "(int \<times> int) list \<Rightarrow> int" where
  "battery_pairs [] = 0"
| "battery_pairs (x # xs) =
     int (length (filter (\<lambda>y. snd x = snd y \<or> fst x = fst y) xs)) + battery_pairs xs"

definition rooks_of :: "board \<Rightarrow> color \<Rightarrow> (int \<times> int) list" where
  "rooks_of b c =
     map (\<lambda>(r, f, p). (r, f)) (filter (\<lambda>(r, f, p). p_type p = Rook \<and> p_color p = c) (pieces b))"

definition rook_battery :: "board \<Rightarrow> num" where
  "rook_battery b =
     of_int (battery_pairs (rooks_of b White) * 15 - battery_pairs (rooks_of b Black) * 15)"

definition hanging :: "board \<Rightarrow> pawn_files \<Rightarrow> pawn_files \<Rightarrow> num" where
  "hanging b wpf bpf =
     sum_list (map (\<lambda>(r, f, p).
        if p_type p = Pawn \<or> p_type p = King then 0
        else if PIECE_VALUE (p_type p) < 300 then 0
        else (let rank = 8 - r;
                  byB = (\<exists>br \<in> set (bpf (f - 1)). br = rank + 1) \<or> (\<exists>br \<in> set (bpf (f + 1)). br = rank + 1);
                  byW = (\<exists>wr \<in> set (wpf (f - 1)). wr = rank - 1) \<or> (\<exists>wr \<in> set (wpf (f + 1)). wr = rank - 1)
              in if p_color p = White
                 then (if byB \<and> \<not> byW then - 20 else 0)
                 else (if byW \<and> \<not> byB then 20 else 0))) (pieces b))"

section \<open>Static evaluation: mobility\<close>

text \<open>\<open>String.split\<close> on one character, \<open>Array.join\<close>, and an array write that extends.\<close>

fun js_split :: "char \<Rightarrow> string \<Rightarrow> string list" where
  "js_split c [] = [[]]"
| "js_split c (x # xs) =
     (if x = c then [] # js_split c xs
      else (case js_split c xs of [] \<Rightarrow> [[x]] | y # ys \<Rightarrow> (x # y) # ys))"

fun js_join :: "string \<Rightarrow> string list \<Rightarrow> string" where
  "js_join sep [] = []"
| "js_join sep [x] = x"
| "js_join sep (x # y # ys) = x @ sep @ js_join sep (y # ys)"

text \<open>
  \<open>parts[i] = v\<close>: past the end JavaScript leaves holes, which \<open>join\<close> prints as empty
  strings and which compare unequal to \<open>'w'\<close>; they are empty strings here.
\<close>

definition arr_set :: "string list \<Rightarrow> nat \<Rightarrow> string \<Rightarrow> string list" where
  "arr_set xs i v =
     (if i < length xs then xs[i := v] else xs @ replicate (i - length xs) [] @ [v])"

definition arr_get :: "string list \<Rightarrow> nat \<Rightarrow> string" where
  "arr_get xs i = (if i < length xs then xs ! i else [])"

text \<open>
  \<open>parseInt\<close> on a field of a FEN: an optional sign and the decimal digits that follow,
  \<open>NaN\<close> (\<open>None\<close>) when there is no digit. The other forms \<open>parseInt\<close> accepts (leading
  blanks, a \<open>0x\<close> prefix) do not occur in a field cut out by \<open>split(' ')\<close> of a FEN the
  library prints. \<open>String\<close> prints an integer in decimal and \<open>NaN\<close> as \<open>NaN\<close>.
\<close>

definition is_digit :: "char \<Rightarrow> bool" where
  "is_digit c \<longleftrightarrow> (48::nat) \<le> of_char c \<and> of_char c \<le> (57::nat)"

definition digits_val :: "string \<Rightarrow> nat" where
  "digits_val ds = foldl (\<lambda>n c. 10 * n + (of_char c - 48)) 0 ds"

definition parseInt :: "string \<Rightarrow> int option" where
  "parseInt s =
     (let neg = (case s of [] \<Rightarrow> False | c # _ \<Rightarrow> c = CHR ''-'');
          rest = (case s of [] \<Rightarrow> [] | c # cs \<Rightarrow> if c = CHR ''-'' \<or> c = CHR ''+'' then cs else s);
          ds = takeWhile is_digit rest
      in if ds = [] then None
         else Some (if neg then - int (digits_val ds) else int (digits_val ds)))"

fun string_of_nat :: "nat \<Rightarrow> string" where
  "string_of_nat n =
     (if n < 10 then [char_of (48 + n)]
      else string_of_nat (n div 10) @ [char_of (48 + n mod 10)])"

definition js_String :: "int option \<Rightarrow> string" where
  "js_String v =
     (case v of
        None \<Rightarrow> ''NaN''
      | Some n \<Rightarrow> if n < 0 then CHR ''-'' # string_of_nat (nat (- n)) else string_of_nat (nat n))"

definition flip_side_fen :: "string \<Rightarrow> string" where
  "flip_side_fen fen =
     (let fenParts = js_split CHR '' '' fen;
          parts1 = arr_set fenParts 1 (if arr_get fenParts 1 = ''w'' then ''b'' else ''w'');
          parts3 = arr_set parts1 3 ''-''
      in js_join '' '' parts3)"

definition mobility :: "chess_lib \<Rightarrow> position \<Rightarrow> num \<Rightarrow> num" where
  "mobility lib p endgameW =
     (let toMoveCount = int (length (lib_moves lib p));
          oppCount = (case lib_load lib (flip_side_fen (pos_fen p)) of
                        None \<Rightarrow> 0 | Some q \<Rightarrow> int (length (lib_moves lib q)));
          mgW = max 0 (1 - endgameW);
          wMobility = (if pos_turn p = White then toMoveCount else oppCount);
          bMobility = (if pos_turn p = White then oppCount else toMoveCount)
      in js_round (of_int (wMobility - bMobility) * 2 * mgW))"

section \<open>Static evaluation: \<open>evaluate\<close>\<close>

definition evaluate :: "chess_lib \<Rightarrow> position \<Rightarrow> bool \<Rightarrow> num" where
  "evaluate lib p skipMobility =
     (if pos_in_checkmate p then (if pos_turn p = White then - 30000 else 30000)
      else if in_draw p \<or> pos_in_stalemate p \<or> pos_in_threefold_repetition p then 0
      else
        (let b = pos_board p;
             wKingFile = kingFile b White; wKingRank = kingRank b White;
             bKingFile = kingFile b Black; bKingRank = kingRank b Black;
             endgameW = endgameW_of b;
             wpf = pawnFiles b White; bpf = pawnFiles b Black
         in of_int (material_pst b)
            + bishop_pair b
            + king_pst b endgameW
            + pawnEval b wpf bpf wKingFile wKingRank bKingFile bKingRank endgameW
            + kingAttackScore b wKingFile wKingRank bKingFile bKingRank endgameW
            + kingTropismScore b wKingFile wKingRank bKingFile bKingRank
            + rook_seventh b wpf bpf wKingRank bKingRank
            + knight_outpost b wpf bpf
            + space_score wpf bpf endgameW
            + tempo (pos_turn p) endgameW
            + rook_battery b
            + hanging b wpf bpf
            + (if skipMobility then 0 else mobility lib p endgameW)))"

section \<open>Transposition table\<close>

datatype tt_flag = TT_EXACT | TT_LOWER | TT_UPPER

record tt_entry =
  e_fen :: string
  e_depth :: int
  e_score :: num
  e_flag :: tt_flag
  e_bestMove :: "string option"

text \<open>\<open>ttTable = new Array(TT_SIZE)\<close>: a slot is empty (\<open>None\<close>) or holds an entry.\<close>

type_synonym tt_table = "nat \<Rightarrow> tt_entry option"

definition TT_SIZE :: nat where
  "TT_SIZE = 2 ^ 20"

text \<open>
  \<open>h = (h * 31 + fen.charCodeAt(i)) & (TT_SIZE - 1)\<close>: with \<open>h < 2 ^ 20\<close> the sum stays
  below \<open>2 ^ 31\<close>, so the 32-bit mask is the remainder modulo \<open>2 ^ 20\<close>.
\<close>

definition ttKey :: "string \<Rightarrow> nat" where
  "ttKey fen = fold (\<lambda>c h. (h * 31 + of_char c) mod TT_SIZE) fen 0"

definition ttGet :: "tt_table \<Rightarrow> string \<Rightarrow> int \<Rightarrow> num \<Rightarrow> num \<Rightarrow> num option" where
  "ttGet tt fen depth alpha beta =
     (case tt (ttKey fen) of
        None \<Rightarrow> None
      | Some e \<Rightarrow>
          if e_fen e \<noteq> fen \<or> e_depth e < depth then None
          else if e_flag e = TT_EXACT then Some (e_score e)
          else if e_flag e = TT_LOWER \<and> e_score e \<ge> beta then Some (e_score e)
          else if e_flag e = TT_UPPER \<and> e_score e \<le> alpha then Some (e_score e)
          else None)"

text \<open>\<open>bestMove || null\<close>: an absent or empty key is stored as null.\<close>

definition or_null :: "string option \<Rightarrow> string option" where
  "or_null b = (case b of None \<Rightarrow> None | Some s \<Rightarrow> if s = [] then None else Some s)"

definition tt_writes :: "tt_table \<Rightarrow> string \<Rightarrow> int \<Rightarrow> bool" where
  "tt_writes tt fen depth =
     (case tt (ttKey fen) of None \<Rightarrow> True | Some e \<Rightarrow> e_depth e \<le> depth)"

definition ttSet :: "tt_table \<Rightarrow> string \<Rightarrow> int \<Rightarrow> num \<Rightarrow> tt_flag \<Rightarrow> string option \<Rightarrow> tt_table" where
  "ttSet tt fen depth score flag bestMove =
     (if tt_writes tt fen depth
      then tt(ttKey fen \<mapsto>
             \<lparr>e_fen = fen, e_depth = depth, e_score = score, e_flag = flag,
              e_bestMove = or_null bestMove\<rparr>)
      else tt)"

definition ttGetMove :: "tt_table \<Rightarrow> string \<Rightarrow> string option" where
  "ttGetMove tt fen =
     (case tt (ttKey fen) of
        None \<Rightarrow> None
      | Some e \<Rightarrow> if e_fen e = fen then or_null (e_bestMove e) else None)"

text \<open>A slot that already holds a deeper entry for the same position, used below.\<close>

definition tt_deeper_upper :: "string \<Rightarrow> tt_table" where
  "tt_deeper_upper fen =
     Map.empty(ttKey fen \<mapsto>
       \<lparr>e_fen = fen, e_depth = 5, e_score = 10, e_flag = TT_UPPER, e_bestMove = None\<rparr>)"

definition start_fen :: string where
  "start_fen = ''rnbqkbnr/pppppppp/8/8/8/8/PPPPPPPP/RNBQKBNR w KQkq - 0 1''"

section \<open>The chess object\<close>

text \<open>
  A \<open>Chess\<close> object holds the current position and the positions to return to on
  \<open>undo()\<close>. \<open>chess.move(m)\<close> makes \<open>m\<close> when it is a legal move of the current position
  and otherwise returns null and changes nothing; \<open>chess.undo()\<close> on an empty history
  changes nothing. \<open>new Chess(fen)\<close> starts with an empty history.
\<close>

record chess =
  cur :: position
  hist :: "position list"

definition chess_new :: "chess_lib \<Rightarrow> string \<Rightarrow> chess option" where
  "chess_new lib fen = map_option (\<lambda>p. \<lparr>cur = p, hist = []\<rparr>) (lib_load lib fen)"

definition chess_move :: "chess_lib \<Rightarrow> chess \<Rightarrow> move \<Rightarrow> chess" where
  "chess_move lib c m =
     (if m \<in> set (lib_moves lib (cur c))
      then \<lparr>cur = lib_make lib (cur c) m, hist = cur c # hist c\<rparr>
      else c)"

definition chess_undo :: "chess \<Rightarrow> chess" where
  "chess_undo c = (case hist c of [] \<Rightarrow> c | p # ps \<Rightarrow> \<lparr>cur = p, hist = ps\<rparr>)"

section \<open>Search state and move ordering\<close>

text \<open>
  The module-level variables of engine.js: the node counter, the transposition table,
  \<open>_killers\<close> (per ply, two slots), \<open>_histTable\<close>, \<open>_counterMoves\<close> and \<open>_moveStack\<close>.
  A search function takes them and the chess object and returns them with its score;
  \<open>None\<close> means that it does not return.
\<close>

record globals =
  g_nodes :: nat
  g_tt :: tt_table
  g_killers :: "nat \<Rightarrow> (string option \<times> string option) option"
  g_hist :: "string \<Rightarrow> int option"
  g_counter :: "string \<Rightarrow> string option"
  g_moveStack :: "nat \<Rightarrow> string option"

type_synonym search_result = "(num \<times> globals \<times> chess) option"

text \<open>\<open>alphaBeta(chess, depth, alpha, beta, maximizing, ply)\<close> and \<open>quiescence\<close>.\<close>

type_synonym searcher = "globals \<Rightarrow> chess \<Rightarrow> int \<Rightarrow> num \<Rightarrow> num \<Rightarrow> bool \<Rightarrow> nat \<Rightarrow> search_result"

type_synonym qsearcher = "globals \<Rightarrow> chess \<Rightarrow> num \<Rightarrow> num \<Rightarrow> bool \<Rightarrow> search_result"

text \<open>The keys \<open>m.from + m.to\<close> and \<open>m.piece + m.from + m.to\<close>.\<close>

definition key_ft :: "move \<Rightarrow> string" where
  "key_ft m = m_from m @ m_to m"

definition key_pft :: "move \<Rightarrow> string" where
  "key_pft m = piece_letter (m_piece m) # m_from m @ m_to m"

definition is_quiet :: "move \<Rightarrow> bool" where
  "is_quiet m \<longleftrightarrow> m_captured m = None \<and> m_promotion m = None"

text \<open>A string in a condition: \<open>null\<close>, \<open>undefined\<close> and the empty string are false.\<close>

definition truthy :: "string option \<Rightarrow> bool" where
  "truthy k \<longleftrightarrow> (case k of None \<Rightarrow> False | Some s \<Rightarrow> s \<noteq> [])"

text \<open>\<open>(_histTable[hk] || 0) + v\<close>.\<close>

definition hist_add :: "(string \<Rightarrow> int option) \<Rightarrow> string \<Rightarrow> int \<Rightarrow> (string \<Rightarrow> int option)" where
  "hist_add h k v = h(k \<mapsto> (case h k of None \<Rightarrow> 0 | Some x \<Rightarrow> x) + v)"

text \<open>
  \<open>orderMoves\<close>: a copy of the moves sorted by \<open>scoreMove\<close>, highest first. The sort is
  stable, as ECMAScript specifies \<open>Array.prototype.sort\<close>.
\<close>

definition scoreMove :: "globals \<Rightarrow> nat \<Rightarrow> string option \<Rightarrow> string option \<Rightarrow> move \<Rightarrow> num" where
  "scoreMove g ply prevMoveKey ttMove m =
     (let kSet = (case g_killers g ply of
                    None \<Rightarrow> []
                  | Some ks \<Rightarrow> filter truthy [fst ks, snd ks]);
          counterKey = (case prevMoveKey of
                          None \<Rightarrow> None
                        | Some k \<Rightarrow> if k = [] then None else g_counter g k)
      in (if truthy ttMove \<and> ttMove = Some (key_ft m) then 300 else 0)
         + (case m_captured m of
              None \<Rightarrow> 0
            | Some cap \<Rightarrow> of_int (PIECE_VALUE cap * 10 - PIECE_VALUE (m_piece m)))
         + (case m_promotion m of None \<Rightarrow> 0 | Some pr \<Rightarrow> of_int (PIECE_VALUE pr * 8))
         + (if Some (key_ft m) \<in> set kSet then 90 else 0)
         + (if truthy counterKey \<and> is_quiet m \<and> counterKey = Some (key_pft m) then 75 else 0)
         + (if is_quiet m then
              (case g_hist g (key_pft m) of
                 None \<Rightarrow> 0
               | Some h \<Rightarrow> if h = 0 then 0 else min 80 (of_int h / 100))
            else 0))"

definition orderMoves ::
  "globals \<Rightarrow> move list \<Rightarrow> nat \<Rightarrow> string option \<Rightarrow> string option \<Rightarrow> move list" where
  "orderMoves g moves ply prevMoveKey ttMove =
     sort_key (\<lambda>m. - scoreMove g ply prevMoveKey ttMove m) moves"

definition makeNullMoveFen :: "string \<Rightarrow> string" where
  "makeNullMoveFen fen =
     (let parts = js_split CHR '' '' fen;
          parts1 = arr_set parts 1 (if arr_get parts 1 = ''w'' then ''b'' else ''w'');
          parts3 = arr_set parts1 3 ''-'';
          parts4 = arr_set parts3 4
                     (js_String (map_option (\<lambda>n. n + 1) (parseInt (arr_get parts3 4))))
      in js_join '' '' parts4)"

text \<open>\<open>xs.slice(0, n)\<close>: a negative \<open>n\<close> counts from the end.\<close>

definition js_slice0 :: "'a list \<Rightarrow> int \<Rightarrow> 'a list" where
  "js_slice0 xs n = (if n \<ge> 0 then take (nat n) xs else take (nat (int (length xs) + n)) xs)"

text \<open>
  A \<open>for\<close> loop over a list with \<open>continue\<close> and \<open>break\<close>: the body returns the new state
  and whether it broke out; \<open>None\<close> when a call inside the body does not return.
\<close>

fun for_break :: "('m \<Rightarrow> 's \<Rightarrow> (bool \<times> 's) option) \<Rightarrow> 'm list \<Rightarrow> 's \<Rightarrow> 's option" where
  "for_break body [] st = Some st"
| "for_break body (m # ms) st =
     (case body m st of
        None \<Rightarrow> None
      | Some r \<Rightarrow> if fst r then Some (snd r) else for_break body ms (snd r))"

section \<open>Quiescence search\<close>

text \<open>The sort key of \<open>quiescence\<close>: MVV/LVA plus the promotion value.\<close>

definition qs_val :: "move \<Rightarrow> int" where
  "qs_val m =
     (case m_captured m of None \<Rightarrow> 0 | Some cap \<Rightarrow> PIECE_VALUE cap * 10 - PIECE_VALUE (m_piece m))
     + (case m_promotion m of None \<Rightarrow> 0 | Some pr \<Rightarrow> PIECE_VALUE pr)"

text \<open>
  The stand-pat test: \<open>Inl v\<close> is the early return of \<open>v\<close>, \<open>Inr (alpha, beta)\<close> the
  tightened window.
\<close>

definition qs_stand_pat :: "num \<Rightarrow> bool \<Rightarrow> num \<Rightarrow> num \<Rightarrow> num + (num \<times> num)" where
  "qs_stand_pat stand maximizing alpha beta =
     (if maximizing
      then (if stand \<ge> beta then Inl beta
            else Inr (if stand > alpha then stand else alpha, beta))
      else (if stand \<le> alpha then Inl alpha
            else Inr (alpha, if stand < beta then stand else beta)))"

text \<open>\<open>allMoves\<close> after the sort: every legal move in check, captures and promotions otherwise.\<close>

definition qs_moves :: "chess_lib \<Rightarrow> position \<Rightarrow> move list" where
  "qs_moves lib p =
     sort_key (\<lambda>m. - qs_val m)
       (if pos_in_check p then lib_moves lib p
        else filter (\<lambda>m. m_captured m \<noteq> None \<or> m_promotion m \<noteq> None) (lib_moves lib p))"

text \<open>Delta pruning; \<open>stand\<close> is \<open>None\<close> in check, where it was never assigned.\<close>

definition qs_delta_skip :: "bool \<Rightarrow> num option \<Rightarrow> bool \<Rightarrow> num \<Rightarrow> num \<Rightarrow> move \<Rightarrow> bool" where
  "qs_delta_skip inCheck stand maximizing alpha beta m \<longleftrightarrow>
     \<not> inCheck \<and>
     (case m_captured m of
        None \<Rightarrow> False
      | Some cap \<Rightarrow>
          (case stand of
             None \<Rightarrow> False
           | Some st \<Rightarrow>
               (maximizing \<and> st + of_int (PIECE_VALUE cap) + 200 < alpha)
               \<or> (\<not> maximizing \<and> st - of_int (PIECE_VALUE cap) - 200 > beta)))"

type_synonym qs_state = "globals \<times> chess \<times> num \<times> num"

definition qs_step ::
  "qsearcher \<Rightarrow> chess_lib \<Rightarrow> bool \<Rightarrow> num option \<Rightarrow> bool \<Rightarrow> move \<Rightarrow> qs_state
   \<Rightarrow> (bool \<times> qs_state) option" where
  "qs_step qs lib inCheck stand maximizing m st =
     (let g = fst st; chess = fst (snd st); alpha = fst (snd (snd st)); beta = snd (snd (snd st))
      in if qs_delta_skip inCheck stand maximizing alpha beta m then Some (False, st)
         else
           (case qs g (chess_move lib chess m) alpha beta (\<not> maximizing) of
              None \<Rightarrow> None
            | Some r \<Rightarrow>
                (let score = fst r; g1 = fst (snd r); chess1 = chess_undo (snd (snd r));
                     alpha1 = (if maximizing \<and> score > alpha then score else alpha);
                     beta1 = (if \<not> maximizing \<and> score < beta then score else beta)
                 in Some (alpha1 \<ge> beta1, (g1, chess1, alpha1, beta1)))))"

text \<open>
  The body of \<open>quiescence\<close>, with the recursive call \<open>qs\<close> and the static evaluator \<open>ev\<close>
  (\<open>evaluate\<close>) as arguments.
\<close>

definition quiescence_body ::
  "qsearcher \<Rightarrow> (position \<Rightarrow> bool \<Rightarrow> num) \<Rightarrow> chess_lib \<Rightarrow> qsearcher" where
  "quiescence_body qs ev lib g0 chess alpha0 beta0 maximizing =
     (let g = g0\<lparr>g_nodes := g_nodes g0 + 1\<rparr>;
          inCheck = pos_in_check (cur chess);
          stand = (if inCheck then None else Some (ev (cur chess) True));
          sp = (case stand of
                  None \<Rightarrow> Inr (alpha0, beta0)
                | Some st \<Rightarrow> qs_stand_pat st maximizing alpha0 beta0)
      in case sp of
           Inl v \<Rightarrow> Some (v, g, chess)
         | Inr w \<Rightarrow>
             if inCheck \<and> lib_moves lib (cur chess) = []
             then Some (if maximizing then - 30000 else 30000, g, chess)
             else
               (case for_break (qs_step qs lib inCheck stand maximizing)
                       (qs_moves lib (cur chess)) (g, chess, fst w, snd w) of
                  None \<Rightarrow> None
                | Some st \<Rightarrow>
                    Some (if maximizing then fst (snd (snd st)) else snd (snd (snd st)),
                          fst st, fst (snd st))))"

text \<open>
  \<open>quiescence\<close> has no depth limit. The recursion is unfolded \<open>fuel\<close> times: with fuel
  0 it has not returned.
\<close>

primrec quiescence_with ::
  "(position \<Rightarrow> bool \<Rightarrow> num) \<Rightarrow> nat \<Rightarrow> chess_lib \<Rightarrow> qsearcher" where
  "quiescence_with ev 0 lib = (\<lambda>g chess alpha beta maximizing. None)"
| "quiescence_with ev (Suc fuel) lib = quiescence_body (quiescence_with ev fuel lib) ev lib"

definition quiescence :: "nat \<Rightarrow> chess_lib \<Rightarrow> qsearcher" where
  "quiescence fuel lib = quiescence_with (evaluate lib) fuel lib"

section \<open>Alpha-beta search\<close>

definition RAZOR_MARGIN :: "int list" where
  "RAZOR_MARGIN = [0, 200, 350]"

definition FUTILITY_MARGIN :: "int list" where
  "FUTILITY_MARGIN = [0, 150, 300, 500]"

definition LMP_THRESHOLD :: "int list" where
  "LMP_THRESHOLD = [0, 5, 12]"

text \<open>
  \<open>TABLE[depth]\<close>: outside the table the read is \<open>undefined\<close>, and every comparison with
  it is false.
\<close>

definition arr_num :: "int list \<Rightarrow> int \<Rightarrow> num option" where
  "arr_num xs i = (if 0 \<le> i \<and> i < int (length xs) then Some (of_int (xs ! nat i)) else None)"

text \<open>What the move loop of \<open>alphaBeta\<close> reads but does not change, and what it changes.\<close>

record ab_ctx =
  c_depth :: int
  c_maximizing :: bool
  c_ply :: nat
  c_inCheckNow :: bool
  c_staticEval :: "num option"
  c_prevMoveKey :: "string option"

record ab_state =
  s_g :: globals
  s_chess :: chess
  s_alpha :: num
  s_beta :: num
  s_best :: num
  s_bestMove :: "string option"
  s_searchedFirst :: bool
  s_quietSearched :: nat

text \<open>
  Null-move pruning. The null-move search runs on a fresh \<open>Chess\<close> object; a FEN that
  does not load is caught and skips the branch. The result is the early return value, if
  any, and the globals.
\<close>

definition null_move ::
  "searcher \<Rightarrow> chess_lib \<Rightarrow> globals \<Rightarrow> chess \<Rightarrow> int \<Rightarrow> num \<Rightarrow> num \<Rightarrow> bool \<Rightarrow> nat
   \<Rightarrow> (num option \<times> globals) option" where
  "null_move ab lib g chess depth alpha beta maximizing ply =
     (if \<not> pos_in_check (cur chess) \<and> depth \<ge> 3 + 1 then
        (case lib_load lib (makeNullMoveFen (pos_fen (cur chess))) of
           None \<Rightarrow> Some (None, g)
         | Some np \<Rightarrow>
             if pos_in_check np then Some (None, g)
             else
               (case ab g \<lparr>cur = np, hist = []\<rparr> (depth - 1 - 3) alpha beta (\<not> maximizing)
                       (ply + 1) of
                  None \<Rightarrow> None
                | Some r \<Rightarrow>
                    if maximizing \<and> fst r \<ge> beta then Some (Some beta, fst (snd r))
                    else if \<not> maximizing \<and> fst r \<le> alpha then Some (Some alpha, fst (snd r))
                    else Some (None, fst (snd r))))
      else Some (None, g))"

text \<open>
  Razoring and the static evaluation for futility pruning. The result is the early return
  value, if any, \<open>staticEval\<close> (\<open>None\<close> for \<open>null\<close>), the globals and the chess object.
\<close>

definition razor ::
  "qsearcher \<Rightarrow> chess_lib \<Rightarrow> globals \<Rightarrow> chess \<Rightarrow> int \<Rightarrow> num \<Rightarrow> bool
   \<Rightarrow> (num option \<times> num option \<times> globals \<times> chess) option" where
  "razor qs lib g chess depth alpha maximizing =
     (if \<not> pos_in_check (cur chess) \<and> depth \<le> 3 then
        (let staticEval = evaluate lib (cur chess) False
         in if maximizing \<and> depth \<ge> 1 \<and> depth \<le> 2 \<and>
               (case arr_num RAZOR_MARGIN depth of
                  None \<Rightarrow> False | Some mg \<Rightarrow> staticEval + mg < alpha)
            then
              (case qs g chess (alpha - 1) alpha maximizing of
                 None \<Rightarrow> None
               | Some r \<Rightarrow>
                   if fst r < alpha then Some (Some (fst r), Some staticEval, snd r)
                   else Some (None, Some staticEval, snd r))
            else Some (None, Some staticEval, g, chess))
      else Some (None, None, g, chess))"

definition futility_skip :: "ab_ctx \<Rightarrow> ab_state \<Rightarrow> move \<Rightarrow> bool" where
  "futility_skip ctx st m \<longleftrightarrow>
     (case c_staticEval ctx of
        None \<Rightarrow> False
      | Some se \<Rightarrow>
          is_quiet m \<and>
          (case arr_num FUTILITY_MARGIN (c_depth ctx) of
             None \<Rightarrow> False
           | Some fm \<Rightarrow>
               (c_maximizing ctx \<and> se + fm \<le> s_alpha st)
               \<or> (\<not> c_maximizing ctx \<and> se - fm \<ge> s_beta st)))"

text \<open>The null-window search of PVS at depth \<open>d\<close>, with the full-window re-search.\<close>

definition pvs_search ::
  "searcher \<Rightarrow> ab_ctx \<Rightarrow> int \<Rightarrow> globals \<Rightarrow> chess \<Rightarrow> num \<Rightarrow> num \<Rightarrow> search_result" where
  "pvs_search ab ctx d g chess alpha beta =
     (let newDepth = c_depth ctx - 1;
          nullLo = (if c_maximizing ctx then alpha else beta - 1);
          nullHi = (if c_maximizing ctx then alpha + 1 else beta)
      in case ab g chess d nullLo nullHi (\<not> c_maximizing ctx) (c_ply ctx + 1) of
           None \<Rightarrow> None
         | Some r \<Rightarrow>
             if fst r > alpha \<and> fst r < beta
             then ab (fst (snd r)) (snd (snd r)) newDepth alpha beta (\<not> c_maximizing ctx)
                    (c_ply ctx + 1)
             else Some r)"

text \<open>The search of one move after \<open>chess.move(move)\<close>: first move, reduced, or null window.\<close>

definition search_move ::
  "searcher \<Rightarrow> chess_lib \<Rightarrow> ab_ctx \<Rightarrow> nat \<Rightarrow> move \<Rightarrow> bool \<Rightarrow> globals \<Rightarrow> chess \<Rightarrow> num \<Rightarrow> num
   \<Rightarrow> search_result" where
  "search_move ab lib ctx mi m searchedFirst g chess alpha beta =
     (let givesCheck = pos_in_check (cur chess);
          depth = c_depth ctx;
          newDepth = depth - 1
      in if \<not> searchedFirst
         then ab g chess newDepth alpha beta (\<not> c_maximizing ctx) (c_ply ctx + 1)
         else if mi \<ge> 2 \<and> depth \<ge> 3 \<and> is_quiet m \<and> \<not> givesCheck \<and> \<not> c_inCheckNow ctx
         then (let r = min newDepth (lib_lmr lib (nat (min 31 depth)) (min 63 mi));
                   reducedDepth = newDepth - r
               in pvs_search ab ctx reducedDepth g chess alpha beta)
         else pvs_search ab ctx newDepth g chess alpha beta)"

text \<open>The updates of \<open>best\<close>, \<open>alpha\<close>, \<open>beta\<close> and the history table after \<open>chess.undo()\<close>.\<close>

definition ab_update :: "ab_ctx \<Rightarrow> move \<Rightarrow> num \<Rightarrow> ab_state \<Rightarrow> ab_state" where
  "ab_update ctx m score st =
     (let better = (if c_maximizing ctx then score > s_best st else score < s_best st);
          raises = (if c_maximizing ctx then score > s_alpha st else score < s_beta st);
          st1 = (if better then st\<lparr>s_best := score, s_bestMove := Some (key_ft m)\<rparr> else st);
          st2 = (if raises
                 then (if c_maximizing ctx then st1\<lparr>s_alpha := score\<rparr>
                       else st1\<lparr>s_beta := score\<rparr>)
                 else st1)
      in if raises \<and> is_quiet m
         then st2\<lparr>s_g := (s_g st2)\<lparr>g_hist := hist_add (g_hist (s_g st2)) (key_pft m) (c_depth ctx)\<rparr>\<rparr>
         else st2)"

text \<open>The cutoff \<open>alpha >= beta\<close> on a quiet move: killers, history, countermove.\<close>

definition ab_cutoff :: "ab_ctx \<Rightarrow> move \<Rightarrow> globals \<Rightarrow> globals" where
  "ab_cutoff ctx m g =
     (if is_quiet m then
        (let ks = (case g_killers g (c_ply ctx) of None \<Rightarrow> (None, None) | Some k \<Rightarrow> k);
             kk = key_ft m;
             ks1 = (if fst ks \<noteq> Some kk then (Some kk, fst ks) else ks);
             hk = key_pft m;
             g1 = g\<lparr>g_killers := (g_killers g)(c_ply ctx \<mapsto> ks1),
                    g_hist := hist_add (g_hist g) hk (c_depth ctx * c_depth ctx)\<rparr>
         in case c_prevMoveKey ctx of
              None \<Rightarrow> g1
            | Some pk \<Rightarrow> if pk = [] then g1 else g1\<lparr>g_counter := (g_counter g1)(pk \<mapsto> hk)\<rparr>)
      else g)"

text \<open>The body of the move loop for the move \<open>m\<close> at index \<open>mi\<close>.\<close>

definition ab_step ::
  "searcher \<Rightarrow> chess_lib \<Rightarrow> ab_ctx \<Rightarrow> nat \<times> move \<Rightarrow> ab_state \<Rightarrow> (bool \<times> ab_state) option" where
  "ab_step ab lib ctx im st =
     (let mi = fst im; m = snd im
      in if futility_skip ctx st m then Some (False, st)
         else
           (let counts = (\<not> c_inCheckNow ctx \<and> c_depth ctx \<le> 2 \<and> is_quiet m \<and> s_searchedFirst st);
                st1 = (if counts then st\<lparr>s_quietSearched := s_quietSearched st + 1\<rparr> else st)
            in if counts \<and>
                  (case arr_num LMP_THRESHOLD (c_depth ctx) of
                     None \<Rightarrow> False | Some t \<Rightarrow> of_nat (s_quietSearched st1) > t)
               then Some (False, st1)
               else
                 (let g1 = (s_g st1)\<lparr>g_moveStack := (g_moveStack (s_g st1))(c_ply ctx \<mapsto> key_pft m)\<rparr>;
                      chess1 = chess_move lib (s_chess st1) m
                  in case search_move ab lib ctx mi m (s_searchedFirst st1) g1 chess1
                            (s_alpha st1) (s_beta st1) of
                       None \<Rightarrow> None
                     | Some r \<Rightarrow>
                         (let st2 = ab_update ctx m (fst r)
                                      (st1\<lparr>s_g := fst (snd r), s_chess := chess_undo (snd (snd r)),
                                           s_searchedFirst := True\<rparr>)
                          in if s_alpha st2 \<ge> s_beta st2
                             then Some (True, st2\<lparr>s_g := ab_cutoff ctx m (s_g st2)\<rparr>)
                             else Some (False, st2)))))"

text \<open>The move loop and the store into the transposition table that ends \<open>alphaBeta\<close>.\<close>

definition ab_moves ::
  "searcher \<Rightarrow> chess_lib \<Rightarrow> move list \<Rightarrow> num option \<Rightarrow> globals \<Rightarrow> chess \<Rightarrow> int \<Rightarrow> num \<Rightarrow> num
   \<Rightarrow> bool \<Rightarrow> nat \<Rightarrow> search_result" where
  "ab_moves ab lib rawMoves staticEval g chess depth alpha beta maximizing ply =
     (let fen = pos_fen (cur chess);
          prevMoveKey = (if ply > 0 then g_moveStack g (ply - 1) else None);
          ttMove = ttGetMove (g_tt g) fen;
          moves = orderMoves g rawMoves ply prevMoveKey ttMove;
          ctx = \<lparr>c_depth = depth, c_maximizing = maximizing, c_ply = ply,
                 c_inCheckNow = pos_in_check (cur chess), c_staticEval = staticEval,
                 c_prevMoveKey = prevMoveKey\<rparr>;
          st0 = \<lparr>s_g = g, s_chess = chess, s_alpha = alpha, s_beta = beta,
                 s_best = (if maximizing then - INFINITY else INFINITY), s_bestMove = None,
                 s_searchedFirst = False, s_quietSearched = 0\<rparr>
      in case for_break (ab_step ab lib ctx) (zip [0 ..< length moves] moves) st0 of
           None \<Rightarrow> None
         | Some st \<Rightarrow>
             (let best = s_best st;
                  flag = (if best \<ge> s_beta st then TT_LOWER
                          else if best \<le> alpha then TT_UPPER else TT_EXACT);
                  g1 = (s_g st)\<lparr>g_tt := ttSet (g_tt (s_g st)) fen depth best flag (s_bestMove st)\<rparr>
              in Some (best, g1, s_chess st)))"

text \<open>
  The body of \<open>alphaBeta\<close>, with its recursive call \<open>ab\<close> and \<open>quiescence\<close> as arguments.
\<close>

definition alphaBeta_body :: "searcher \<Rightarrow> qsearcher \<Rightarrow> chess_lib \<Rightarrow> searcher" where
  "alphaBeta_body ab qs lib g0 chess depth alpha0 beta0 maximizing ply =
     (let g = g0\<lparr>g_nodes := g_nodes g0 + 1\<rparr>;
          alpha = max alpha0 (- (30000 - of_nat ply));
          beta = min beta0 (30000 - of_nat ply)
      in if alpha \<ge> beta then Some (alpha, g, chess)
         else
           (case ttGet (g_tt g) (pos_fen (cur chess)) depth alpha beta of
              Some ttHit \<Rightarrow> Some (ttHit, g, chess)
            | None \<Rightarrow>
                if depth = 0 then qs g chess alpha beta maximizing
                else if game_over (cur chess) then Some (evaluate lib (cur chess) False, g, chess)
                else if lib_moves lib (cur chess) = []
                then Some (evaluate lib (cur chess) False, g, chess)
                else
                  (case null_move ab lib g chess depth alpha beta maximizing ply of
                     None \<Rightarrow> None
                   | Some nm \<Rightarrow>
                       (case fst nm of
                          Some v \<Rightarrow> Some (v, snd nm, chess)
                        | None \<Rightarrow>
                            (case razor qs lib (snd nm) chess depth alpha maximizing of
                               None \<Rightarrow> None
                             | Some rz \<Rightarrow>
                                 (case fst rz of
                                    Some v \<Rightarrow> Some (v, snd (snd rz))
                                  | None \<Rightarrow>
                                      ab_moves ab lib (lib_moves lib (cur chess)) (fst (snd rz))
                                        (fst (snd (snd rz))) (snd (snd (snd rz)))
                                        depth alpha beta maximizing ply))))))"

text \<open>
  \<open>alphaBeta\<close>, unfolded \<open>fuel\<close> times like \<open>quiescence\<close>: each level of the recursion
  takes one unit, and the quiescence search at the horizon gets what is left.
\<close>

primrec alphaBeta :: "nat \<Rightarrow> chess_lib \<Rightarrow> searcher" where
  "alphaBeta 0 lib = (\<lambda>g chess depth alpha beta maximizing ply. None)"
| "alphaBeta (Suc fuel) lib = alphaBeta_body (alphaBeta fuel lib) (quiescence fuel lib) lib"

section \<open>The root driver\<close>

text \<open>
  One iteration \<open>d\<close> of the deepening loop for a root move already made: the searches of
  the aspiration windows around \<open>prevScore\<close>. \<open>mx\<close> is \<open>max\<close>, whether White is to move
  at the root.
\<close>

definition ASP_DELTA :: num where
  "ASP_DELTA = 50"

definition aspiration :: "searcher \<Rightarrow> bool \<Rightarrow> int \<Rightarrow> num \<Rightarrow> globals \<Rightarrow> chess \<Rightarrow> search_result" where
  "aspiration ab mx d prevScore g chess =
     (if d > 1 then
        (let lo = prevScore - ASP_DELTA; hi = prevScore + ASP_DELTA
         in case ab g chess (d - 1) lo hi (\<not> mx) 0 of
              None \<Rightarrow> None
            | Some r \<Rightarrow>
                if fst r \<le> lo \<or> fst r \<ge> hi then
                  (let lo3 = prevScore - ASP_DELTA * 3; hi3 = prevScore + ASP_DELTA * 3
                   in case ab (fst (snd r)) (snd (snd r)) (d - 1) lo3 hi3 (\<not> mx) 0 of
                        None \<Rightarrow> None
                      | Some r2 \<Rightarrow>
                          if fst r2 \<le> lo3 \<or> fst r2 \<ge> hi3
                          then ab (fst (snd r2)) (snd (snd r2)) (d - 1) (- INFINITY) INFINITY
                                 (\<not> mx) 0
                          else Some r2)
                else Some r)
      else ab g chess (d - 1) (- INFINITY) INFINITY (\<not> mx) 0)"

text \<open>
  The deepening loop \<open>for (d = 1; d <= depth; d++)\<close>. Its state is \<open>score\<close>,
  \<open>prevScore\<close>, the globals and the chess object; it breaks on a mate score.
\<close>

type_synonym deepen_state = "num \<times> num \<times> globals \<times> chess"

definition deepen_step :: "searcher \<Rightarrow> bool \<Rightarrow> int \<Rightarrow> deepen_state \<Rightarrow> (bool \<times> deepen_state) option" where
  "deepen_step ab mx d st =
     (let prevScore = fst (snd st); g = fst (snd (snd st)); chess = snd (snd (snd st))
      in case aspiration ab mx d prevScore g chess of
           None \<Rightarrow> None
         | Some r \<Rightarrow>
             if \<bar>fst r\<bar> \<ge> 29000 then Some (True, (fst r, prevScore, snd r))
             else Some (False, (fst r, fst r, snd r)))"

definition deepen :: "searcher \<Rightarrow> bool \<Rightarrow> int \<Rightarrow> globals \<Rightarrow> chess \<Rightarrow> search_result" where
  "deepen ab mx depth g chess =
     (case for_break (deepen_step ab mx) [1..depth] (0, 0, g, chess) of
        None \<Rightarrow> None
      | Some st \<Rightarrow> Some (fst st, snd (snd st)))"

text \<open>A line \<open>{move, score}\<close> of the result.\<close>

record line =
  l_move :: move
  l_score :: num

type_synonym root_state = "line list \<times> globals \<times> chess"

definition root_step ::
  "searcher \<Rightarrow> chess_lib \<Rightarrow> bool \<Rightarrow> int \<Rightarrow> move \<Rightarrow> root_state \<Rightarrow> (bool \<times> root_state) option" where
  "root_step ab lib mx depth m st =
     (let results = fst st; g = fst (snd st); chess = snd (snd st)
      in case deepen ab mx depth g (chess_move lib chess m) of
           None \<Rightarrow> None
         | Some r \<Rightarrow>
             Some (False,
                   (results @ [\<lparr>l_move = m, l_score = (if mx then fst r else - fst r)\<rparr>],
                    fst (snd r), chess_undo (snd (snd r)))))"

text \<open>
  History gravity: \<open>oldHist[k] >> 1\<close> is a 32-bit shift, and an entry that becomes 0 is
  dropped.
\<close>

definition to_int32 :: "int \<Rightarrow> int" where
  "to_int32 v = (v + 2 ^ 31) mod 2 ^ 32 - 2 ^ 31"

definition hist_gravity :: "(string \<Rightarrow> int option) \<Rightarrow> (string \<Rightarrow> int option)" where
  "hist_gravity h =
     (\<lambda>k. case h k of
            None \<Rightarrow> None
          | Some v \<Rightarrow> (let w = to_int32 v div 2 in if w > 0 then Some w else None))"

definition reset_globals :: "globals \<Rightarrow> globals" where
  "reset_globals g =
     g\<lparr>g_nodes := 0, g_killers := (\<lambda>ply. None), g_moveStack := (\<lambda>ply. None),
       g_hist := hist_gravity (g_hist g)\<rparr>"

text \<open>
  \<open>searchRoot(fen, depth, multiPV)\<close>. It returns the lines; the model also returns the
  globals and the chess object as the call leaves them. \<open>None\<close>: the constructor throws
  or a search does not return.
\<close>

definition searchRoot ::
  "nat \<Rightarrow> chess_lib \<Rightarrow> globals \<Rightarrow> string \<Rightarrow> int \<Rightarrow> int \<Rightarrow> (line list \<times> globals \<times> chess) option" where
  "searchRoot fuel lib g0 fen depth multiPV =
     (case chess_new lib fen of
        None \<Rightarrow> None
      | Some chess \<Rightarrow>
          (let mx = (pos_turn (cur chess) = White);
               g = reset_globals g0;
               rawMoves = lib_moves lib (cur chess)
           in if rawMoves = [] then Some ([], g, chess)
              else
                (case for_break (root_step (alphaBeta fuel lib) lib mx depth) rawMoves
                        ([], g, chess) of
                   None \<Rightarrow> None
                 | Some st \<Rightarrow>
                     Some (js_slice0 (sort_key (\<lambda>r. - l_score r) (fst st)) multiPV,
                           snd st))))"

text \<open>
  What the root loop pushes for a root move of the position in \<open>c0\<close>: the score the
  deepening loop returns for the position after the move, negated when \<open>max\<close> is false.
\<close>

definition line_from :: "searcher \<Rightarrow> chess_lib \<Rightarrow> bool \<Rightarrow> int \<Rightarrow> chess \<Rightarrow> line \<Rightarrow> bool" where
  "line_from ab lib mx depth c0 l \<longleftrightarrow>
     l_move l \<in> set (lib_moves lib (cur c0)) \<and>
     (\<exists>g1 r. deepen ab mx depth g1 (chess_move lib c0 (l_move l)) = Some r
        \<and> l_score l = (if mx then fst r else - fst r))"

text \<open>The globals of a worker that has not searched yet.\<close>

definition fresh_globals :: globals where
  "fresh_globals =
     \<lparr>g_nodes = 0, g_tt = (\<lambda>k. None), g_killers = (\<lambda>ply. None), g_hist = (\<lambda>k. None),
      g_counter = (\<lambda>k. None), g_moveStack = (\<lambda>ply. None)\<rparr>"

text \<open>
  The aspiration scheme in the words of the specification: iteration 1 has the full
  window; a later iteration has the windows of half-width 50 and 150 around the previous
  score and then the full window. The windows are tried in order; a score strictly inside
  the window ends the iteration, and the score of the last window is taken as it is. The
  loop over \<open>d = 1..maxDepth\<close> ends at the first score of absolute value 29000 or more.
\<close>

definition spec_windows :: "int \<Rightarrow> num \<Rightarrow> (num \<times> num) list" where
  "spec_windows d prev =
     (if d = 1 then [(- INFINITY, INFINITY)]
      else [(prev - 50, prev + 50), (prev - 150, prev + 150), (- INFINITY, INFINITY)])"

fun spec_try :: "searcher \<Rightarrow> bool \<Rightarrow> int \<Rightarrow> (num \<times> num) list \<Rightarrow> globals \<Rightarrow> chess \<Rightarrow> search_result" where
  "spec_try ab mx d [] g chess = None"
| "spec_try ab mx d [w] g chess = ab g chess (d - 1) (fst w) (snd w) (\<not> mx) 0"
| "spec_try ab mx d (w # w' # ws) g chess =
     (case ab g chess (d - 1) (fst w) (snd w) (\<not> mx) 0 of
        None \<Rightarrow> None
      | Some r \<Rightarrow>
          if fst w < fst r \<and> fst r < snd w then Some r
          else spec_try ab mx d (w' # ws) (fst (snd r)) (snd (snd r)))"

fun spec_deepen ::
  "searcher \<Rightarrow> bool \<Rightarrow> int list \<Rightarrow> num \<Rightarrow> num \<Rightarrow> globals \<Rightarrow> chess \<Rightarrow> search_result" where
  "spec_deepen ab mx [] score prev g chess = Some (score, g, chess)"
| "spec_deepen ab mx (d # ds) score prev g chess =
     (case spec_try ab mx d (spec_windows d prev) g chess of
        None \<Rightarrow> None
      | Some r \<Rightarrow>
          if \<bar>fst r\<bar> \<ge> 29000 then Some r
          else spec_deepen ab mx ds (fst r) (fst r) (fst (snd r)) (snd (snd r)))"

text \<open>
  The root driver in the words of the specification: the tables are reset; every legal
  move of the position, in enumeration order, is made, searched by the deepening loop
  above and undone, each search going on from the tables the one before left; the line
  of a move has the score of its search, with the sign flipped when Black is to move at
  the root; the lines are sorted by descending score and the first \<open>multiPV\<close> returned.
  \<open>mx\<close> says that White is to move at the root.
\<close>

fun spec_root_moves ::
  "searcher \<Rightarrow> chess_lib \<Rightarrow> bool \<Rightarrow> int \<Rightarrow> move list \<Rightarrow> globals \<Rightarrow> chess
   \<Rightarrow> (line list \<times> globals) option" where
  "spec_root_moves ab lib mx depth [] g chess = Some ([], g)"
| "spec_root_moves ab lib mx depth (m # ms) g chess =
     (case spec_deepen ab mx [1..depth] 0 0 g (chess_move lib chess m) of
        None \<Rightarrow> None
      | Some r \<Rightarrow>
          (case spec_root_moves ab lib mx depth ms (fst (snd r)) chess of
             None \<Rightarrow> None
           | Some rest \<Rightarrow>
               Some (\<lparr>l_move = m, l_score = (if mx then fst r else - fst r)\<rparr> # fst rest,
                     snd rest)))"

definition spec_searchRoot ::
  "searcher \<Rightarrow> chess_lib \<Rightarrow> globals \<Rightarrow> string \<Rightarrow> int \<Rightarrow> int \<Rightarrow> (line list \<times> globals) option" where
  "spec_searchRoot ab lib g0 fen depth multiPV =
     (case lib_load lib fen of
        None \<Rightarrow> None
      | Some p \<Rightarrow>
          (case spec_root_moves ab lib (pos_turn p = White) depth (lib_moves lib p)
                  (reset_globals g0) \<lparr>cur = p, hist = []\<rparr> of
             None \<Rightarrow> None
           | Some r \<Rightarrow> Some (js_slice0 (sort_key (\<lambda>l. - l_score l) (fst r)) multiPV, snd r)))"

text \<open>A search function that hands the chess object back as it received it.\<close>

definition qs_keeps :: "qsearcher \<Rightarrow> bool" where
  "qs_keeps qs \<longleftrightarrow> (\<forall>g c a b mx r. qs g c a b mx = Some r \<longrightarrow> snd (snd r) = c)"

definition ab_keeps :: "searcher \<Rightarrow> bool" where
  "ab_keeps ab \<longleftrightarrow> (\<forall>g c d a b mx ply r. ab g c d a b mx ply = Some r \<longrightarrow> snd (snd r) = c)"

section \<open>The plan generator\<close>

record task =
  t_fen :: string
  t_depth :: int
  t_multiPV :: int
  t_taskId :: string
  t_rootMove :: "string option"
  t_moves :: "string list option"

text \<open>
  The loops of \<open>PlanQueue.generate\<close>. The state is the chess object, the tasks pushed
  so far and the counter \<open>id\<close>. \<open>gen_reply\<close> is the body of the inner loop for one
  reply, \<open>gen_root\<close> the body of the outer loop for one root move; each loop tests
  \<open>tasks.length >= maxPlans\<close> first and breaks.
\<close>

type_synonym gen_state = "chess \<times> task list \<times> nat"

definition gen_reply :: "chess_lib \<Rightarrow> int \<Rightarrow> move \<Rightarrow> move \<Rightarrow> gen_state \<Rightarrow> gen_state" where
  "gen_reply lib maxDepth rm rp st =
     (let c = fst st; tasks = fst (snd st); ident = snd (snd st);
          c1 = chess_move lib c rp;
          t = \<lparr>t_fen = pos_fen (cur c1), t_depth = max 1 (maxDepth - 2), t_multiPV = 1,
               t_taskId = ''l2-'' @ string_of_nat ident,
               t_rootMove = Some (m_san rm), t_moves = Some [m_san rm, m_san rp]\<rparr>;
          c2 = chess_undo c1
      in (c2, tasks @ [t], ident + 1))"

fun gen_replies ::
  "chess_lib \<Rightarrow> int \<Rightarrow> int \<Rightarrow> move \<Rightarrow> move list \<Rightarrow> gen_state \<Rightarrow> gen_state" where
  "gen_replies lib maxPlans maxDepth rm [] st = st"
| "gen_replies lib maxPlans maxDepth rm (rp # rps) st =
     (if int (length (fst (snd st))) \<ge> maxPlans then st
      else gen_replies lib maxPlans maxDepth rm rps (gen_reply lib maxDepth rm rp st))"

text \<open>\<open>k\<close> is \<open>rootMoves.length\<close>.\<close>

definition gen_root :: "chess_lib \<Rightarrow> int \<Rightarrow> int \<Rightarrow> nat \<Rightarrow> move \<Rightarrow> gen_state \<Rightarrow> gen_state" where
  "gen_root lib maxPlans maxDepth k rm st =
     (let c = fst st; tasks = fst (snd st); ident = snd (snd st);
          c1 = chess_move lib c rm;
          fen1 = pos_fen (cur c1);
          t = \<lparr>t_fen = fen1, t_depth = max 1 (maxDepth - 1),
               t_multiPV = min 4 (int (length (lib_moves lib (cur c1)))),
               t_taskId = ''l1-'' @ string_of_nat ident,
               t_rootMove = Some (m_san rm), t_moves = Some [m_san rm]\<rparr>;
          tasks1 = tasks @ [t];
          replies = lib_moves lib (cur c1);
          n = \<lceil>(of_int (maxPlans - int (length tasks1)) :: rat) / of_int (int k)\<rceil>;
          st2 = gen_replies lib maxPlans maxDepth rm (js_slice0 replies n)
                  (c1, tasks1, ident + 1)
      in (chess_undo (fst st2), fst (snd st2), snd (snd st2)))"

fun gen_roots ::
  "chess_lib \<Rightarrow> int \<Rightarrow> int \<Rightarrow> nat \<Rightarrow> move list \<Rightarrow> gen_state \<Rightarrow> gen_state" where
  "gen_roots lib maxPlans maxDepth k [] st = st"
| "gen_roots lib maxPlans maxDepth k (rm # rms) st =
     (if int (length (fst (snd st))) \<ge> maxPlans then st
      else gen_roots lib maxPlans maxDepth k rms (gen_root lib maxPlans maxDepth k rm st))"

text \<open>\<open>PlanQueue.generate\<close>; \<open>None\<close> when \<open>new Chess(fen)\<close> throws.\<close>

definition generate :: "chess_lib \<Rightarrow> string \<Rightarrow> int \<Rightarrow> int \<Rightarrow> task list option" where
  "generate lib fen maxPlans maxDepth =
     (case chess_new lib fen of
        None \<Rightarrow> None
      | Some c \<Rightarrow>
          (let rootMoves = lib_moves lib (cur c)
           in if rootMoves = [] then Some []
              else
                (let root = \<lparr>t_fen = fen, t_depth = maxDepth,
                             t_multiPV = min 8 (int (length rootMoves)),
                             t_taskId = ''root'', t_rootMove = None, t_moves = None\<rparr>
                 in Some (fst (snd (gen_roots lib maxPlans maxDepth (length rootMoves) rootMoves
                                     (c, [root], 1)))))))"

text \<open>The number of legal replies to a root move.\<close>

definition reply_count :: "chess_lib \<Rightarrow> position \<Rightarrow> move \<Rightarrow> nat" where
  "reply_count lib p rm = length (lib_moves lib (lib_make lib p rm))"

text \<open>
  The task list in closed form. The tasks are numbered as they are pushed, so \<open>id\<close> is
  the number of tasks pushed before. \<open>root_task\<close>, \<open>l1_task\<close> and \<open>l2_task\<close> are the
  three object literals of \<open>generate\<close>; \<open>l2_tasks\<close> are the level-2 tasks of consecutive
  replies, numbered from \<open>ident\<close>.
\<close>

definition root_task :: "string \<Rightarrow> int \<Rightarrow> nat \<Rightarrow> task" where
  "root_task fen D k =
     \<lparr>t_fen = fen, t_depth = D, t_multiPV = min 8 (int k), t_taskId = ''root'',
      t_rootMove = None, t_moves = None\<rparr>"

definition l1_task :: "chess_lib \<Rightarrow> position \<Rightarrow> int \<Rightarrow> nat \<Rightarrow> move \<Rightarrow> task" where
  "l1_task lib p D ident rm =
     \<lparr>t_fen = pos_fen (lib_make lib p rm), t_depth = max 1 (D - 1),
      t_multiPV = min 4 (int (length (lib_moves lib (lib_make lib p rm)))),
      t_taskId = ''l1-'' @ string_of_nat ident,
      t_rootMove = Some (m_san rm), t_moves = Some [m_san rm]\<rparr>"

definition l2_task :: "chess_lib \<Rightarrow> position \<Rightarrow> int \<Rightarrow> nat \<Rightarrow> move \<Rightarrow> move \<Rightarrow> task" where
  "l2_task lib q D ident rm rp =
     \<lparr>t_fen = pos_fen (lib_make lib q rp), t_depth = max 1 (D - 2), t_multiPV = 1,
      t_taskId = ''l2-'' @ string_of_nat ident,
      t_rootMove = Some (m_san rm), t_moves = Some [m_san rm, m_san rp]\<rparr>"

fun l2_tasks :: "chess_lib \<Rightarrow> position \<Rightarrow> int \<Rightarrow> nat \<Rightarrow> move \<Rightarrow> move list \<Rightarrow> task list" where
  "l2_tasks lib q D ident rm [] = []"
| "l2_tasks lib q D ident rm (rp # rps) =
     l2_task lib q D ident rm rp # l2_tasks lib q D (ident + 1) rm rps"

text \<open>
  The number of level-2 tasks of a root move with \<open>r\<close> replies when \<open>e\<close> tasks have been
  pushed, the level-1 task of the root move included: the length of
  \<open>replies.slice(0, Math.ceil((maxPlans - tasks.length) / rootMoves.length))\<close>.
\<close>

definition reply_budget :: "int \<Rightarrow> nat \<Rightarrow> nat \<Rightarrow> nat \<Rightarrow> nat" where
  "reply_budget M k e r = min r (nat \<lceil>(of_int (M - int e) :: rat) / of_nat k\<rceil>)"

text \<open>
  The block of a root move when \<open>n\<close> tasks were pushed before it: its level-1 task and
  the level-2 tasks of its first replies, as many as the budget allows. The blocks follow
  each other in the order of the root moves, as long as fewer than \<open>maxPlans\<close> tasks have
  been pushed.
\<close>

definition plan_block :: "chess_lib \<Rightarrow> position \<Rightarrow> int \<Rightarrow> int \<Rightarrow> nat \<Rightarrow> nat \<Rightarrow> move \<Rightarrow> task list" where
  "plan_block lib p M D k n rm =
     l1_task lib p D n rm #
     l2_tasks lib (lib_make lib p rm) D (n + 1) rm
       (take (reply_budget M k (n + 1) (reply_count lib p rm))
          (lib_moves lib (lib_make lib p rm)))"

fun plan_blocks ::
  "chess_lib \<Rightarrow> position \<Rightarrow> int \<Rightarrow> int \<Rightarrow> nat \<Rightarrow> nat \<Rightarrow> move list \<Rightarrow> task list" where
  "plan_blocks lib p M D k n [] = []"
| "plan_blocks lib p M D k n (rm # rms) =
     (if int n \<ge> M then []
      else plan_block lib p M D k n rm
           @ plan_blocks lib p M D k (n + length (plan_block lib p M D k n rm)) rms)"

text \<open>
  The number of tasks after the root moves with \<open>rs\<close> replies each, when \<open>n\<close> tasks were
  pushed before them.
\<close>

fun plan_count :: "int \<Rightarrow> nat \<Rightarrow> nat \<Rightarrow> nat list \<Rightarrow> nat" where
  "plan_count M k n [] = n"
| "plan_count M k n (r # rs) =
     (if int n \<ge> M then n
      else plan_count M k (n + 1 + reply_budget M k (n + 1) r) rs)"

section \<open>The analysis coordinator\<close>

text \<open>
  \<open>AnalysisCoordinator.start\<close> dispatches every task to the pool and attaches to each
  promise \<open>.then(result => ...).catch(() => {})\<close>; it then awaits
  \<open>Promise.allSettled\<close> and emits the final update. The coordinator runs on one event
  loop, so a run is the sequence of what happens to it: a promise of the run settles (the
  pool resolves it with the worker's reply or rejects it on a worker error), or \<open>stop()\<close>
  is called. A promise settles once; settling it again does nothing. The pool and the
  workers are the source of these events and are not modelled further.

  An emission is a call of \<open>onUpdate\<close>. Its \<open>lines\<close> (built by \<open>_buildLines\<close>, which does
  not change the coordinator) and the clock readings \<open>nps\<close> and \<open>elapsed\<close> are left out.
  \<open>co_resolved\<close> records the promises that were fulfilled, in order; it is not a field of
  the source and no statement about the emissions mentions it: it serves in the proofs,
  where it is tied to the events of the run.
\<close>

record payload =
  pl_nodes :: "nat option"

datatype outcome = Fulfilled payload | Rejected

datatype cevent = Settle nat outcome | StopCall

record emission =
  em_nodes :: nat
  em_tasks :: nat
  em_total :: int
  em_final :: bool

record coordinator =
  co_maxPlans :: int
  co_running :: bool
  co_results :: "(string \<times> task \<times> payload) list"
  co_totalNodes :: nat
  co_tasks :: "task list"
  co_settled :: "bool list"
  co_resolved :: "nat list"
  co_emitted :: "emission list"

text \<open>\<open>Map.prototype.set\<close> on a map kept in insertion order; its size is its length.\<close>

definition map_set :: "'k \<Rightarrow> 'v \<Rightarrow> ('k \<times> 'v) list \<Rightarrow> ('k \<times> 'v) list" where
  "map_set k v m =
     (if k \<in> fst ` set m then map (\<lambda>e. if fst e = k then (k, v) else e) m else m @ [(k, v)])"

definition emit :: "bool \<Rightarrow> coordinator \<Rightarrow> coordinator" where
  "emit final co =
     co\<lparr>co_emitted := co_emitted co @
            [\<lparr>em_nodes = co_totalNodes co, em_tasks = length (co_results co),
              em_total = co_maxPlans co, em_final = final\<rparr>]\<rparr>"

text \<open>The \<open>.then\<close> callback of one task: \<open>result.nodes || 0\<close> is added to the total.\<close>

definition then_callback :: "coordinator \<Rightarrow> task \<Rightarrow> payload \<Rightarrow> coordinator" where
  "then_callback co t result =
     (if \<not> co_running co then co
      else emit False
             (co\<lparr>co_results := map_set (t_taskId t) (t, result) (co_results co),
                 co_totalNodes := co_totalNodes co
                    + (case pl_nodes result of None \<Rightarrow> 0 | Some n \<Rightarrow> n)\<rparr>))"

text \<open>The code after \<open>await Promise.allSettled(promises)\<close>.\<close>

definition after_await :: "coordinator \<Rightarrow> coordinator" where
  "after_await co = (if co_running co then emit True (co\<lparr>co_running := False\<rparr>) else co)"

definition all_settled :: "coordinator \<Rightarrow> bool" where
  "all_settled co \<longleftrightarrow> list_all (\<lambda>b. b) (co_settled co)"

definition handle :: "coordinator \<Rightarrow> cevent \<Rightarrow> coordinator" where
  "handle co ev =
     (case ev of
        StopCall \<Rightarrow> co\<lparr>co_running := False\<rparr>
      | Settle i oc \<Rightarrow>
          if i < length (co_settled co) \<and> \<not> co_settled co ! i then
            (let co1 = co\<lparr>co_settled := (co_settled co)[i := True]\<rparr>;
                 co2 = (case oc of
                          Fulfilled r \<Rightarrow>
                            (then_callback co1 (co_tasks co1 ! i) r)
                              \<lparr>co_resolved := co_resolved co1 @ [i]\<rparr>
                        | Rejected \<Rightarrow> co1)
             in if all_settled co2 then after_await co2 else co2)
          else co)"

text \<open>
  \<open>start\<close> up to the \<open>await\<close>, for the task list the plan generator returned: the
  coordinator is reset and every promise is pending. With no task the await is over at
  once.
\<close>

definition start_tasks :: "int \<Rightarrow> task list \<Rightarrow> coordinator" where
  "start_tasks maxPlans tasks =
     (let co = \<lparr>co_maxPlans = maxPlans, co_running = True, co_results = [],
                co_totalNodes = 0, co_tasks = tasks,
                co_settled = replicate (length tasks) False, co_resolved = [],
                co_emitted = []\<rparr>
      in if tasks = [] then after_await co else co)"

definition run :: "int \<Rightarrow> task list \<Rightarrow> cevent list \<Rightarrow> coordinator" where
  "run maxPlans tasks evs = foldl handle (start_tasks maxPlans tasks) evs"

text \<open>\<open>start(fen)\<close> followed by the events of the run; \<open>None\<close> when the generator throws.\<close>

definition start :: "chess_lib \<Rightarrow> string \<Rightarrow> int \<Rightarrow> int \<Rightarrow> cevent list \<Rightarrow> coordinator option" where
  "start lib fen maxPlans maxDepth evs =
     map_option (\<lambda>tasks. run maxPlans tasks evs) (generate lib fen maxPlans maxDepth)"

text \<open>The task ids of the fulfilled promises.\<close>

definition resolved_ids :: "coordinator \<Rightarrow> string set" where
  "resolved_ids co = (\<lambda>i. t_taskId (co_tasks co ! i)) ` set (co_resolved co)"

text \<open>What holds of the coordinator throughout a run in which \<open>stop()\<close> is not called.\<close>

definition co_inv :: "task list \<Rightarrow> coordinator \<Rightarrow> bool" where
  "co_inv tasks co \<longleftrightarrow>
     co_tasks co = tasks \<and> length (co_settled co) = length tasks
     \<and> (\<not> all_settled co \<longrightarrow> co_running co \<and> (\<forall>e \<in> set (co_emitted co). \<not> em_final e))
     \<and> (all_settled co \<longrightarrow>
          co_emitted co \<noteq> [] \<and> em_final (last (co_emitted co))
          \<and> (\<forall>e \<in> set (butlast (co_emitted co)). \<not> em_final e)
          \<and> em_tasks (last (co_emitted co)) = length (co_results co))
     \<and> length (filter (\<lambda>e. \<not> em_final e) (co_emitted co)) = length (co_resolved co)
     \<and> distinct (map fst (co_results co))
     \<and> fst ` set (co_results co) = resolved_ids co
     \<and> distinct (co_resolved co)
     \<and> (\<forall>j \<in> set (co_resolved co). j < length (co_settled co) \<and> co_settled co ! j)"

text \<open>
  The events of a run, read for one promise: \<open>settled_in evs i\<close> says that some event
  settles promise \<open>i\<close>, \<open>fulfilled_in evs i\<close> that the first event settling it fulfils
  it (a promise settles once). \<open>fulfilled_tasks\<close> lists the tasks whose promise a run
  fulfils.
\<close>

fun fulfilled_in :: "cevent list \<Rightarrow> nat \<Rightarrow> bool" where
  "fulfilled_in [] i = False"
| "fulfilled_in (ev # evs) i =
     (case ev of
        StopCall \<Rightarrow> fulfilled_in evs i
      | Settle j oc \<Rightarrow>
          if j = i then (case oc of Fulfilled r \<Rightarrow> True | Rejected \<Rightarrow> False)
          else fulfilled_in evs i)"

fun settled_in :: "cevent list \<Rightarrow> nat \<Rightarrow> bool" where
  "settled_in [] i = False"
| "settled_in (ev # evs) i =
     (case ev of StopCall \<Rightarrow> settled_in evs i | Settle j oc \<Rightarrow> j = i \<or> settled_in evs i)"

definition fulfilled_tasks :: "task list \<Rightarrow> cevent list \<Rightarrow> nat list" where
  "fulfilled_tasks tasks evs = filter (fulfilled_in evs) [0 ..< length tasks]"

text \<open>What the coordinator's bookkeeping is in terms of the events of the run.\<close>

definition co_tie :: "task list \<Rightarrow> cevent list \<Rightarrow> coordinator \<Rightarrow> bool" where
  "co_tie tasks evs co \<longleftrightarrow>
     length (co_settled co) = length tasks
     \<and> (\<forall>i < length tasks. co_settled co ! i \<longleftrightarrow> settled_in evs i)
     \<and> set (co_resolved co) = {i. i < length tasks \<and> fulfilled_in evs i}"

section \<open>Concrete positions\<close>

text \<open>
  Concrete inputs are written as FEN strings. \<open>fen_board\<close> reads the piece placement of
  a FEN into the 8x8 grid that \<open>chess.board()\<close> returns for it, and \<open>mk_pos\<close> builds the
  position of a FEN from the answers of \<open>in_check\<close>, \<open>in_checkmate\<close>, \<open>in_stalemate\<close> and
  \<open>insufficient_material\<close> there, with no repetition and the half-move clock of the FEN.
\<close>

definition piece_of_char :: "char \<Rightarrow> piece option" where
  "piece_of_char c =
     (if c = CHR ''P'' then Some \<lparr>p_type = Pawn, p_color = White\<rparr>
      else if c = CHR ''N'' then Some \<lparr>p_type = Knight, p_color = White\<rparr>
      else if c = CHR ''B'' then Some \<lparr>p_type = Bishop, p_color = White\<rparr>
      else if c = CHR ''R'' then Some \<lparr>p_type = Rook, p_color = White\<rparr>
      else if c = CHR ''Q'' then Some \<lparr>p_type = Queen, p_color = White\<rparr>
      else if c = CHR ''K'' then Some \<lparr>p_type = King, p_color = White\<rparr>
      else if c = CHR ''p'' then Some \<lparr>p_type = Pawn, p_color = Black\<rparr>
      else if c = CHR ''n'' then Some \<lparr>p_type = Knight, p_color = Black\<rparr>
      else if c = CHR ''b'' then Some \<lparr>p_type = Bishop, p_color = Black\<rparr>
      else if c = CHR ''r'' then Some \<lparr>p_type = Rook, p_color = Black\<rparr>
      else if c = CHR ''q'' then Some \<lparr>p_type = Queen, p_color = Black\<rparr>
      else if c = CHR ''k'' then Some \<lparr>p_type = King, p_color = Black\<rparr>
      else None)"

fun fen_row :: "string \<Rightarrow> piece option list" where
  "fen_row [] = []"
| "fen_row (c # cs) =
     (case piece_of_char c of
        Some p \<Rightarrow> Some p # fen_row cs
      | None \<Rightarrow> replicate (of_char c - 48) None @ fen_row cs)"

definition fen_board :: "string \<Rightarrow> board" where
  "fen_board fen = map fen_row (js_split CHR ''/'' (hd (js_split CHR '' '' fen)))"

definition fen_turn :: "string \<Rightarrow> color" where
  "fen_turn fen = (if arr_get (js_split CHR '' '' fen) 1 = ''w'' then White else Black)"

definition mk_pos :: "string \<Rightarrow> bool \<Rightarrow> bool \<Rightarrow> bool \<Rightarrow> bool \<Rightarrow> position" where
  "mk_pos fen chk mate stale insuff =
     \<lparr>pos_board = fen_board fen, pos_turn = fen_turn fen, pos_fen = fen,
      pos_in_check = chk, pos_in_checkmate = mate, pos_in_stalemate = stale,
      pos_insufficient_material = insuff, pos_in_threefold_repetition = False,
      pos_half_moves =
        (case parseInt (arr_get (js_split CHR '' '' fen) 4) of
           None \<Rightarrow> 0 | Some n \<Rightarrow> nat n)\<rparr>"

definition mk_move ::
  "color \<Rightarrow> ptype \<Rightarrow> string \<Rightarrow> string \<Rightarrow> ptype option \<Rightarrow> ptype option \<Rightarrow> string \<Rightarrow> move" where
  "mk_move c t from to cap promo san =
     \<lparr>m_from = from, m_to = to, m_piece = t, m_color = c, m_captured = cap,
      m_promotion = promo, m_san = san\<rparr>"

text \<open>
  A library given by a finite table: each known position with its legal moves and, for
  each move, the FEN of the position it leads to; a position is looked up by its FEN.
  Outside the table a position has no moves and a FEN does not load. The table stands for chess.js on the positions listed.
  The reduction table is only read at depth 3 and more, where every entry with
  \<open>d, m \<ge> 1\<close> is at least 1.
\<close>

type_synonym lib_table = "(position \<times> (move \<times> string) list) list"

definition tab_moves :: "lib_table \<Rightarrow> position \<Rightarrow> (move \<times> string) list" where
  "tab_moves tbl p =
     (case find (\<lambda>e. pos_fen (fst e) = pos_fen p) tbl of None \<Rightarrow> [] | Some e \<Rightarrow> snd e)"

definition tab_load :: "lib_table \<Rightarrow> string \<Rightarrow> position option" where
  "tab_load tbl fen = find (\<lambda>q. pos_fen q = fen) (map fst tbl)"

definition tab_lib :: "lib_table \<Rightarrow> chess_lib" where
  "tab_lib tbl =
     \<lparr>lib_moves = (\<lambda>p. map fst (tab_moves tbl p)),
      lib_make = (\<lambda>p m. case map_of (tab_moves tbl p) m of
                            None \<Rightarrow> p
                          | Some fen \<Rightarrow> (case tab_load tbl fen of None \<Rightarrow> p | Some q \<Rightarrow> q)),
      lib_load = tab_load tbl,
      lib_lmr = (\<lambda>d m. if d = 0 \<or> m = 0 then 0 else 1)\<rparr>"

text \<open>
  King and queen against king: White Kg1, Qa4 and Black Kg8, with either side to move,
  and the colour-mirrored position, Black Kg8, Qa5 and White Kg1.
\<close>

definition queen_fen :: string where
  "queen_fen = ''6k1/8/8/8/Q7/8/8/6K1 w - - 0 1''"

definition queen_mirror_fen :: string where
  "queen_mirror_fen = ''6k1/8/8/q7/8/8/8/6K1 b - - 0 1''"

definition queen_table :: lib_table where
  "queen_table =
   [(mk_pos ''6k1/8/8/8/Q7/8/8/6K1 w - - 0 1'' False False False False,
     [(mk_move White Queen ''a4'' ''b4'' None None ''Qb4'',
       ''6k1/8/8/8/1Q6/8/8/6K1 b - - 1 1''),
      (mk_move White Queen ''a4'' ''c4'' None None ''Qc4+'',
       ''6k1/8/8/8/2Q5/8/8/6K1 b - - 1 1''),
      (mk_move White Queen ''a4'' ''d4'' None None ''Qd4'',
       ''6k1/8/8/8/3Q4/8/8/6K1 b - - 1 1''),
      (mk_move White Queen ''a4'' ''e4'' None None ''Qe4'',
       ''6k1/8/8/8/4Q3/8/8/6K1 b - - 1 1''),
      (mk_move White Queen ''a4'' ''f4'' None None ''Qf4'',
       ''6k1/8/8/8/5Q2/8/8/6K1 b - - 1 1''),
      (mk_move White Queen ''a4'' ''g4'' None None ''Qg4+'',
       ''6k1/8/8/8/6Q1/8/8/6K1 b - - 1 1''),
      (mk_move White Queen ''a4'' ''h4'' None None ''Qh4'',
       ''6k1/8/8/8/7Q/8/8/6K1 b - - 1 1''),
      (mk_move White Queen ''a4'' ''a5'' None None ''Qa5'',
       ''6k1/8/8/Q7/8/8/8/6K1 b - - 1 1''),
      (mk_move White Queen ''a4'' ''a6'' None None ''Qa6'',
       ''6k1/8/Q7/8/8/8/8/6K1 b - - 1 1''),
      (mk_move White Queen ''a4'' ''a7'' None None ''Qa7'',
       ''6k1/Q7/8/8/8/8/8/6K1 b - - 1 1''),
      (mk_move White Queen ''a4'' ''a8'' None None ''Qa8+'',
       ''Q5k1/8/8/8/8/8/8/6K1 b - - 1 1''),
      (mk_move White Queen ''a4'' ''a3'' None None ''Qa3'',
       ''6k1/8/8/8/8/Q7/8/6K1 b - - 1 1''),
      (mk_move White Queen ''a4'' ''a2'' None None ''Qa2+'',
       ''6k1/8/8/8/8/8/Q7/6K1 b - - 1 1''),
      (mk_move White Queen ''a4'' ''a1'' None None ''Qa1'',
       ''6k1/8/8/8/8/8/8/Q5K1 b - - 1 1''),
      (mk_move White Queen ''a4'' ''b5'' None None ''Qb5'',
       ''6k1/8/8/1Q6/8/8/8/6K1 b - - 1 1''),
      (mk_move White Queen ''a4'' ''c6'' None None ''Qc6'',
       ''6k1/8/2Q5/8/8/8/8/6K1 b - - 1 1''),
      (mk_move White Queen ''a4'' ''d7'' None None ''Qd7'',
       ''6k1/3Q4/8/8/8/8/8/6K1 b - - 1 1''),
      (mk_move White Queen ''a4'' ''e8'' None None ''Qe8+'',
       ''4Q1k1/8/8/8/8/8/8/6K1 b - - 1 1''),
      (mk_move White Queen ''a4'' ''b3'' None None ''Qb3+'',
       ''6k1/8/8/8/8/1Q6/8/6K1 b - - 1 1''),
      (mk_move White Queen ''a4'' ''c2'' None None ''Qc2'',
       ''6k1/8/8/8/8/8/2Q5/6K1 b - - 1 1''),
      (mk_move White Queen ''a4'' ''d1'' None None ''Qd1'',
       ''6k1/8/8/8/8/8/8/3Q2K1 b - - 1 1''),
      (mk_move White King ''g1'' ''f1'' None None ''Kf1'',
       ''6k1/8/8/8/Q7/8/8/5K2 b - - 1 1''),
      (mk_move White King ''g1'' ''f2'' None None ''Kf2'',
       ''6k1/8/8/8/Q7/8/5K2/8 b - - 1 1''),
      (mk_move White King ''g1'' ''g2'' None None ''Kg2'',
       ''6k1/8/8/8/Q7/8/6K1/8 b - - 1 1''),
      (mk_move White King ''g1'' ''h1'' None None ''Kh1'',
       ''6k1/8/8/8/Q7/8/8/7K b - - 1 1''),
      (mk_move White King ''g1'' ''h2'' None None ''Kh2'',
       ''6k1/8/8/8/Q7/8/7K/8 b - - 1 1'')]),
    (mk_pos ''6k1/8/8/8/Q7/8/8/6K1 b - - 0 1'' False False False False,
     [(mk_move Black King ''g8'' ''f7'' None None ''Kf7'',
       ''8/5k2/8/8/Q7/8/8/6K1 w - - 1 2''),
      (mk_move Black King ''g8'' ''f8'' None None ''Kf8'',
       ''5k2/8/8/8/Q7/8/8/6K1 w - - 1 2''),
      (mk_move Black King ''g8'' ''g7'' None None ''Kg7'',
       ''8/6k1/8/8/Q7/8/8/6K1 w - - 1 2''),
      (mk_move Black King ''g8'' ''h7'' None None ''Kh7'',
       ''8/7k/8/8/Q7/8/8/6K1 w - - 1 2''),
      (mk_move Black King ''g8'' ''h8'' None None ''Kh8'',
       ''7k/8/8/8/Q7/8/8/6K1 w - - 1 2'')]),
    (mk_pos ''6k1/8/8/q7/8/8/8/6K1 b - - 0 1'' False False False False,
     [(mk_move Black King ''g8'' ''f7'' None None ''Kf7'',
       ''8/5k2/8/q7/8/8/8/6K1 w - - 1 2''),
      (mk_move Black King ''g8'' ''f8'' None None ''Kf8'',
       ''5k2/8/8/q7/8/8/8/6K1 w - - 1 2''),
      (mk_move Black King ''g8'' ''g7'' None None ''Kg7'',
       ''8/6k1/8/q7/8/8/8/6K1 w - - 1 2''),
      (mk_move Black King ''g8'' ''h7'' None None ''Kh7'',
       ''8/7k/8/q7/8/8/8/6K1 w - - 1 2''),
      (mk_move Black King ''g8'' ''h8'' None None ''Kh8'',
       ''7k/8/8/q7/8/8/8/6K1 w - - 1 2''),
      (mk_move Black Queen ''a5'' ''b5'' None None ''Qb5'',
       ''6k1/8/8/1q6/8/8/8/6K1 w - - 1 2''),
      (mk_move Black Queen ''a5'' ''c5'' None None ''Qc5+'',
       ''6k1/8/8/2q5/8/8/8/6K1 w - - 1 2''),
      (mk_move Black Queen ''a5'' ''d5'' None None ''Qd5'',
       ''6k1/8/8/3q4/8/8/8/6K1 w - - 1 2''),
      (mk_move Black Queen ''a5'' ''e5'' None None ''Qe5'',
       ''6k1/8/8/4q3/8/8/8/6K1 w - - 1 2''),
      (mk_move Black Queen ''a5'' ''f5'' None None ''Qf5'',
       ''6k1/8/8/5q2/8/8/8/6K1 w - - 1 2''),
      (mk_move Black Queen ''a5'' ''g5'' None None ''Qg5+'',
       ''6k1/8/8/6q1/8/8/8/6K1 w - - 1 2''),
      (mk_move Black Queen ''a5'' ''h5'' None None ''Qh5'',
       ''6k1/8/8/7q/8/8/8/6K1 w - - 1 2''),
      (mk_move Black Queen ''a5'' ''a6'' None None ''Qa6'',
       ''6k1/8/q7/8/8/8/8/6K1 w - - 1 2''),
      (mk_move Black Queen ''a5'' ''a7'' None None ''Qa7+'',
       ''6k1/q7/8/8/8/8/8/6K1 w - - 1 2''),
      (mk_move Black Queen ''a5'' ''a8'' None None ''Qa8'',
       ''q5k1/8/8/8/8/8/8/6K1 w - - 1 2''),
      (mk_move Black Queen ''a5'' ''a4'' None None ''Qa4'',
       ''6k1/8/8/8/q7/8/8/6K1 w - - 1 2''),
      (mk_move Black Queen ''a5'' ''a3'' None None ''Qa3'',
       ''6k1/8/8/8/8/q7/8/6K1 w - - 1 2''),
      (mk_move Black Queen ''a5'' ''a2'' None None ''Qa2'',
       ''6k1/8/8/8/8/8/q7/6K1 w - - 1 2''),
      (mk_move Black Queen ''a5'' ''a1'' None None ''Qa1+'',
       ''6k1/8/8/8/8/8/8/q5K1 w - - 1 2''),
      (mk_move Black Queen ''a5'' ''b6'' None None ''Qb6+'',
       ''6k1/8/1q6/8/8/8/8/6K1 w - - 1 2''),
      (mk_move Black Queen ''a5'' ''c7'' None None ''Qc7'',
       ''6k1/2q5/8/8/8/8/8/6K1 w - - 1 2''),
      (mk_move Black Queen ''a5'' ''d8'' None None ''Qd8'',
       ''3q2k1/8/8/8/8/8/8/6K1 w - - 1 2''),
      (mk_move Black Queen ''a5'' ''b4'' None None ''Qb4'',
       ''6k1/8/8/8/1q6/8/8/6K1 w - - 1 2''),
      (mk_move Black Queen ''a5'' ''c3'' None None ''Qc3'',
       ''6k1/8/8/8/8/2q5/8/6K1 w - - 1 2''),
      (mk_move Black Queen ''a5'' ''d2'' None None ''Qd2'',
       ''6k1/8/8/8/8/8/3q4/6K1 w - - 1 2''),
      (mk_move Black Queen ''a5'' ''e1'' None None ''Qe1+'',
       ''6k1/8/8/8/8/8/8/4q1K1 w - - 1 2'')]),
    (mk_pos ''6k1/8/8/q7/8/8/8/6K1 w - - 0 1'' False False False False,
     [(mk_move White King ''g1'' ''f1'' None None ''Kf1'',
       ''6k1/8/8/q7/8/8/8/5K2 b - - 1 1''),
      (mk_move White King ''g1'' ''f2'' None None ''Kf2'',
       ''6k1/8/8/q7/8/8/5K2/8 b - - 1 1''),
      (mk_move White King ''g1'' ''g2'' None None ''Kg2'',
       ''6k1/8/8/q7/8/8/6K1/8 b - - 1 1''),
      (mk_move White King ''g1'' ''h1'' None None ''Kh1'',
       ''6k1/8/8/q7/8/8/8/7K b - - 1 1''),
      (mk_move White King ''g1'' ''h2'' None None ''Kh2'',
       ''6k1/8/8/q7/8/8/7K/8 b - - 1 1'')])]"

definition queen_lib :: chess_lib where
  "queen_lib = tab_lib queen_table"

definition queen_pos :: position where
  "queen_pos = mk_pos queen_fen False False False False"

definition queen_mirror_pos :: position where
  "queen_mirror_pos = mk_pos queen_mirror_fen False False False False"

text \<open>The colour mirror of a board: the rows in reverse order, every piece recoloured.\<close>

definition opposite :: "color \<Rightarrow> color" where
  "opposite c = (if c = White then Black else White)"

definition mirror_board :: "board \<Rightarrow> board" where
  "mirror_board b =
     rev (map (map (map_option (\<lambda>p. p\<lparr>p_color := opposite (p_color p)\<rparr>))) b)"

text \<open>
  Two terminal positions: Black to move and mated on the back rank, and the stalemate of
  the specification's scenario 4.
\<close>

definition mated_pos :: position where
  "mated_pos = mk_pos ''R5k1/5ppp/8/8/8/8/5PPP/6K1 b - - 1 1'' True True False False"

definition stalemate_pos :: position where
  "stalemate_pos = mk_pos ''7k/5Q2/6K1/8/8/8/8/8 b - - 0 1'' False False True False"

definition terminal_lib :: chess_lib where
  "terminal_lib = tab_lib [(mated_pos, []), (stalemate_pos, [])]"

text \<open>
  A pawn ending with two legal root moves and three replies to each: White Ka1, Pc2
  against Kh8, Pc3, White to move. The table lists the position, the positions after
  each root move and after each reply.
\<close>

definition pawn_fen :: string where
  "pawn_fen = ''7k/8/8/8/8/2p5/2P5/K7 w - - 0 1''"

definition pawn_table :: lib_table where
  "pawn_table =
   [(mk_pos ''7k/8/8/8/8/2p5/2P5/K7 w - - 0 1'' False False False False,
     [(mk_move White King ''a1'' ''a2'' None None ''Ka2'',
       ''7k/8/8/8/8/2p5/K1P5/8 b - - 1 1''),
      (mk_move White King ''a1'' ''b1'' None None ''Kb1'',
       ''7k/8/8/8/8/2p5/2P5/1K6 b - - 1 1'')]),
    (mk_pos ''7k/8/8/8/8/2p5/K1P5/8 b - - 1 1'' False False False False,
     [(mk_move Black King ''h8'' ''g7'' None None ''Kg7'',
       ''8/6k1/8/8/8/2p5/K1P5/8 w - - 2 2''),
      (mk_move Black King ''h8'' ''g8'' None None ''Kg8'',
       ''6k1/8/8/8/8/2p5/K1P5/8 w - - 2 2''),
      (mk_move Black King ''h8'' ''h7'' None None ''Kh7'',
       ''8/7k/8/8/8/2p5/K1P5/8 w - - 2 2'')]),
    (mk_pos ''7k/8/8/8/8/2p5/2P5/1K6 b - - 1 1'' False False False False,
     [(mk_move Black King ''h8'' ''g7'' None None ''Kg7'',
       ''8/6k1/8/8/8/2p5/2P5/1K6 w - - 2 2''),
      (mk_move Black King ''h8'' ''g8'' None None ''Kg8'',
       ''6k1/8/8/8/8/2p5/2P5/1K6 w - - 2 2''),
      (mk_move Black King ''h8'' ''h7'' None None ''Kh7'',
       ''8/7k/8/8/8/2p5/2P5/1K6 w - - 2 2'')]),
    (mk_pos ''8/6k1/8/8/8/2p5/K1P5/8 w - - 2 2'' False False False False,
     [(mk_move White King ''a2'' ''a1'' None None ''Ka1'',
       ''8/6k1/8/8/8/2p5/2P5/K7 b - - 3 2''),
      (mk_move White King ''a2'' ''a3'' None None ''Ka3'',
       ''8/6k1/8/8/8/K1p5/2P5/8 b - - 3 2''),
      (mk_move White King ''a2'' ''b1'' None None ''Kb1'',
       ''8/6k1/8/8/8/2p5/2P5/1K6 b - - 3 2''),
      (mk_move White King ''a2'' ''b3'' None None ''Kb3'',
       ''8/6k1/8/8/8/1Kp5/2P5/8 b - - 3 2'')]),
    (mk_pos ''6k1/8/8/8/8/2p5/K1P5/8 w - - 2 2'' False False False False,
     [(mk_move White King ''a2'' ''a1'' None None ''Ka1'',
       ''6k1/8/8/8/8/2p5/2P5/K7 b - - 3 2''),
      (mk_move White King ''a2'' ''a3'' None None ''Ka3'',
       ''6k1/8/8/8/8/K1p5/2P5/8 b - - 3 2''),
      (mk_move White King ''a2'' ''b1'' None None ''Kb1'',
       ''6k1/8/8/8/8/2p5/2P5/1K6 b - - 3 2''),
      (mk_move White King ''a2'' ''b3'' None None ''Kb3'',
       ''6k1/8/8/8/8/1Kp5/2P5/8 b - - 3 2'')]),
    (mk_pos ''8/7k/8/8/8/2p5/K1P5/8 w - - 2 2'' False False False False,
     [(mk_move White King ''a2'' ''a1'' None None ''Ka1'',
       ''8/7k/8/8/8/2p5/2P5/K7 b - - 3 2''),
      (mk_move White King ''a2'' ''a3'' None None ''Ka3'',
       ''8/7k/8/8/8/K1p5/2P5/8 b - - 3 2''),
      (mk_move White King ''a2'' ''b1'' None None ''Kb1'',
       ''8/7k/8/8/8/2p5/2P5/1K6 b - - 3 2''),
      (mk_move White King ''a2'' ''b3'' None None ''Kb3'',
       ''8/7k/8/8/8/1Kp5/2P5/8 b - - 3 2'')]),
    (mk_pos ''8/6k1/8/8/8/2p5/2P5/1K6 w - - 2 2'' False False False False,
     [(mk_move White King ''b1'' ''a1'' None None ''Ka1'',
       ''8/6k1/8/8/8/2p5/2P5/K7 b - - 3 2''),
      (mk_move White King ''b1'' ''a2'' None None ''Ka2'',
       ''8/6k1/8/8/8/2p5/K1P5/8 b - - 3 2''),
      (mk_move White King ''b1'' ''c1'' None None ''Kc1'',
       ''8/6k1/8/8/8/2p5/2P5/2K5 b - - 3 2'')]),
    (mk_pos ''6k1/8/8/8/8/2p5/2P5/1K6 w - - 2 2'' False False False False,
     [(mk_move White King ''b1'' ''a1'' None None ''Ka1'',
       ''6k1/8/8/8/8/2p5/2P5/K7 b - - 3 2''),
      (mk_move White King ''b1'' ''a2'' None None ''Ka2'',
       ''6k1/8/8/8/8/2p5/K1P5/8 b - - 3 2''),
      (mk_move White King ''b1'' ''c1'' None None ''Kc1'',
       ''6k1/8/8/8/8/2p5/2P5/2K5 b - - 3 2'')]),
    (mk_pos ''8/7k/8/8/8/2p5/2P5/1K6 w - - 2 2'' False False False False,
     [(mk_move White King ''b1'' ''a1'' None None ''Ka1'',
       ''8/7k/8/8/8/2p5/2P5/K7 b - - 3 2''),
      (mk_move White King ''b1'' ''a2'' None None ''Ka2'',
       ''8/7k/8/8/8/2p5/K1P5/8 b - - 3 2''),
      (mk_move White King ''b1'' ''c1'' None None ''Kc1'',
       ''8/7k/8/8/8/2p5/2P5/2K5 b - - 3 2'')])]"

definition pawn_lib :: chess_lib where
  "pawn_lib = tab_lib pawn_table"

definition pawn_pos :: position where
  "pawn_pos = mk_pos pawn_fen False False False False"

text \<open>
  King and pawn against king with Black to move: White Kf7, Pg5 and Black Kh8. Black has
  the single move Kh7, after which White has six moves, none of them a capture or a
  promotion. The third and the fourth entry are the position after Kh7 and the root
  position with the side to move flipped, which the mobility term loads.
\<close>

definition kp_fen :: string where
  "kp_fen = ''7k/5K2/8/6P1/8/8/8/8 b - - 0 1''"

definition kp_table :: lib_table where
  "kp_table =
   [(mk_pos ''7k/5K2/8/6P1/8/8/8/8 b - - 0 1'' False False False False,
     [(mk_move Black King ''h8'' ''h7'' None None ''Kh7'',
       ''8/5K1k/8/6P1/8/8/8/8 w - - 1 2'')]),
    (mk_pos ''8/5K1k/8/6P1/8/8/8/8 w - - 1 2'' False False False False,
     [(mk_move White King ''f7'' ''e6'' None None ''Ke6'',
       ''8/7k/4K3/6P1/8/8/8/8 b - - 2 2''),
      (mk_move White King ''f7'' ''e7'' None None ''Ke7'',
       ''8/4K2k/8/6P1/8/8/8/8 b - - 2 2''),
      (mk_move White King ''f7'' ''e8'' None None ''Ke8'',
       ''4K3/7k/8/6P1/8/8/8/8 b - - 2 2''),
      (mk_move White King ''f7'' ''f6'' None None ''Kf6'',
       ''8/7k/5K2/6P1/8/8/8/8 b - - 2 2''),
      (mk_move White King ''f7'' ''f8'' None None ''Kf8'',
       ''5K2/7k/8/6P1/8/8/8/8 b - - 2 2''),
      (mk_move White Pawn ''g5'' ''g6'' None None ''g6+'',
       ''8/5K1k/6P1/8/8/8/8/8 b - - 0 2'')]),
    (mk_pos ''8/5K1k/8/6P1/8/8/8/8 b - - 1 2'' False False False False,
     [(mk_move Black King ''h7'' ''h8'' None None ''Kh8'',
       ''7k/5K2/8/6P1/8/8/8/8 w - - 2 3'')]),
    (mk_pos ''7k/5K2/8/6P1/8/8/8/8 w - - 0 1'' False False False False,
     [(mk_move White King ''f7'' ''e6'' None None ''Ke6'',
       ''7k/8/4K3/6P1/8/8/8/8 b - - 1 1''),
      (mk_move White King ''f7'' ''e7'' None None ''Ke7'',
       ''7k/4K3/8/6P1/8/8/8/8 b - - 1 1''),
      (mk_move White King ''f7'' ''e8'' None None ''Ke8'',
       ''4K2k/8/8/6P1/8/8/8/8 b - - 1 1''),
      (mk_move White King ''f7'' ''f6'' None None ''Kf6'',
       ''7k/8/5K2/6P1/8/8/8/8 b - - 1 1''),
      (mk_move White King ''f7'' ''f8'' None None ''Kf8'',
       ''5K1k/8/8/6P1/8/8/8/8 b - - 1 1''),
      (mk_move White King ''f7'' ''g6'' None None ''Kg6'',
       ''7k/8/6K1/6P1/8/8/8/8 b - - 1 1''),
      (mk_move White Pawn ''g5'' ''g6'' None None ''g6'',
       ''7k/5K2/6P1/8/8/8/8/8 b - - 0 1'')])]"

definition kp_lib :: chess_lib where
  "kp_lib = tab_lib kp_table"

definition kp_pos :: position where
  "kp_pos = mk_pos kp_fen False False False False"

definition kp_child :: position where
  "kp_child = mk_pos ''8/5K1k/8/6P1/8/8/8/8 w - - 1 2'' False False False False"

definition kp_move :: move where
  "kp_move = mk_move Black King ''h8'' ''h7'' None None ''Kh7''"





section \<open>The evaluator's terminal scores\<close>

text \<open>
  Claim C1. \<open>evaluate\<close> tests the terminal states before it computes any term: on a
  checkmate position it returns -30000 when White is to move and +30000 when Black is to
  move; on a position that is not checkmate and is a stalemate, has insufficient material
  or is a threefold repetition it returns 0. The checkmate test comes first in the code.
\<close>

theorem evaluate_terminal_scores:
  "(pos_in_checkmate p \<longrightarrow>
      evaluate lib p skipMobility = (if pos_turn p = White then - 30000 else 30000))
   \<and> (\<not> pos_in_checkmate p \<and>
        (pos_in_stalemate p \<or> pos_insufficient_material p \<or> pos_in_threefold_repetition p)
      \<longrightarrow> evaluate lib p skipMobility = 0)"
  by (simp add: evaluate_def in_draw_def)

theorem evaluate_terminal_scores_witness:
  "pos_in_checkmate mated_pos \<and> evaluate terminal_lib mated_pos False = 30000
   \<and> \<not> pos_in_checkmate stalemate_pos \<and> pos_in_stalemate stalemate_pos
   \<and> evaluate terminal_lib stalemate_pos False = 0"
proof -
  have m: "pos_in_checkmate mated_pos"
    by (simp add: mated_pos_def mk_pos_def)
  have t: "pos_turn mated_pos = Black"
    by code_simp
  have n: "\<not> pos_in_checkmate stalemate_pos" and st: "pos_in_stalemate stalemate_pos"
    by (simp_all add: stalemate_pos_def mk_pos_def)
  have a: "evaluate terminal_lib mated_pos False = 30000"
    using evaluate_terminal_scores [of mated_pos terminal_lib False] m t by simp
  have b: "evaluate terminal_lib stalemate_pos False = 0"
    using evaluate_terminal_scores [of stalemate_pos terminal_lib False] n st by simp
  from m n st a b show ?thesis by simp
qed

section \<open>The evaluator on a position and its colour mirror\<close>

text \<open>
  Claim C3 at a concrete pair. White Kg1, Qa4 against Kg8 with White to move evaluates
  to 922; its colour mirror, Black Kg8, Qa5 against Kg1 with Black to move, evaluates to
  -917 and not to -922. The mirror of a4 is a5; \<open>sqIdx\<close> reads the black queen's table
  entry at index \<open>r * 8 + (7 - f)\<close>, which flips the file as well as the rank, and the
  queen's table is not symmetric in the files: the white queen on a4 reads entry 32,
  which is 0, the black queen on a5 reads entry 39, which is -5.
\<close>

theorem evaluate_color_mirror_queen:
  "pos_board queen_mirror_pos = mirror_board (pos_board queen_pos)
   \<and> pos_turn queen_mirror_pos = opposite (pos_turn queen_pos)
   \<and> evaluate queen_lib queen_pos False = 922
   \<and> evaluate queen_lib queen_mirror_pos False = - 917"
proof -
  have a: "pos_board queen_mirror_pos = mirror_board (pos_board queen_pos)"
    by code_simp
  have b: "pos_turn queen_mirror_pos = opposite (pos_turn queen_pos)"
    by code_simp
  have c: "evaluate queen_lib queen_pos False = 922"
    by code_simp
  have d: "evaluate queen_lib queen_mirror_pos False = - 917"
    by code_simp
  from a b c d show ?thesis by simp
qed

section \<open>Transposition table: probe and store\<close>

lemma ttGet_Some_iff:
  "ttGet tt fen depth alpha beta = Some s \<longleftrightarrow>
     (\<exists>e. tt (ttKey fen) = Some e \<and> e_fen e = fen \<and> depth \<le> e_depth e \<and> s = e_score e \<and>
          (e_flag e = TT_EXACT \<or> (e_flag e = TT_LOWER \<and> beta \<le> s) \<or>
           (e_flag e = TT_UPPER \<and> s \<le> alpha)))"
  by (cases "tt (ttKey fen)") (auto simp: ttGet_def)

text \<open>
  Claim C4, as stated, at a slot that holds a deeper entry: the table holds the start
  position at depth 5 with flag UPPER and score 10; storing the same position at depth 3
  with flag EXACT and score 20 leaves the slot as it is, and the full-window probe at
  depth 3 that follows misses instead of returning 20.
\<close>

theorem tt_store_then_probe_counterexample:
  "ttGet (ttSet (tt_deeper_upper start_fen) start_fen 3 20 TT_EXACT None)
         start_fen 3 (- INFINITY) INFINITY \<noteq> Some 20"
  by (simp add: ttSet_def tt_writes_def tt_deeper_upper_def ttGet_def INFINITY_def)

text \<open>
  Claim C4 (amended). A probe returns a score only from an entry in the probed slot whose
  stored FEN equals the probe FEN, whose depth is at least the requested depth and whose
  flag condition holds (EXACT, or LOWER with score at least beta, or UPPER with score at
  most alpha). A store writes the slot if and only if the slot is empty or holds an entry
  of depth at most the new depth, and changes nothing otherwise. Hence, when the store
  with flag EXACT did write, a full-window probe of the same FEN right after it returns
  the stored score for every requested depth up to the stored depth.
\<close>

theorem tt_probe_store:
  "(ttGet tt fen depth alpha beta = Some s \<longrightarrow>
      (\<exists>e. tt (ttKey fen) = Some e \<and> e_fen e = fen \<and> depth \<le> e_depth e \<and> s = e_score e \<and>
           (e_flag e = TT_EXACT \<or> (e_flag e = TT_LOWER \<and> beta \<le> s) \<or>
            (e_flag e = TT_UPPER \<and> s \<le> alpha))))
   \<and> (tt_writes tt fen d \<longleftrightarrow>
        tt (ttKey fen) = None \<or> (\<exists>e. tt (ttKey fen) = Some e \<and> e_depth e \<le> d))
   \<and> (tt_writes tt fen d \<longrightarrow>
        ttSet tt fen d sc fl bm =
          tt(ttKey fen \<mapsto> \<lparr>e_fen = fen, e_depth = d, e_score = sc, e_flag = fl,
                            e_bestMove = or_null bm\<rparr>))
   \<and> (\<not> tt_writes tt fen d \<longrightarrow> ttSet tt fen d sc fl bm = tt)
   \<and> (tt_writes tt fen d \<and> d' \<le> d \<longrightarrow>
        ttGet (ttSet tt fen d sc TT_EXACT bm) fen d' (- INFINITY) INFINITY = Some sc)"
proof -
  have probe: "ttGet tt fen depth alpha beta = Some s \<longrightarrow>
      (\<exists>e. tt (ttKey fen) = Some e \<and> e_fen e = fen \<and> depth \<le> e_depth e \<and> s = e_score e \<and>
           (e_flag e = TT_EXACT \<or> (e_flag e = TT_LOWER \<and> beta \<le> s) \<or>
            (e_flag e = TT_UPPER \<and> s \<le> alpha)))"
    using ttGet_Some_iff [of tt fen depth alpha beta s] by blast
  have cond: "tt_writes tt fen d \<longleftrightarrow>
        tt (ttKey fen) = None \<or> (\<exists>e. tt (ttKey fen) = Some e \<and> e_depth e \<le> d)"
    by (cases "tt (ttKey fen)") (simp_all add: tt_writes_def)
  have wr: "tt_writes tt fen d \<longrightarrow>
        ttSet tt fen d sc fl bm =
          tt(ttKey fen \<mapsto> \<lparr>e_fen = fen, e_depth = d, e_score = sc, e_flag = fl,
                            e_bestMove = or_null bm\<rparr>)"
    by (simp add: ttSet_def)
  have nwr: "\<not> tt_writes tt fen d \<longrightarrow> ttSet tt fen d sc fl bm = tt"
    by (simp add: ttSet_def)
  have after: "tt_writes tt fen d \<and> d' \<le> d \<longrightarrow>
        ttGet (ttSet tt fen d sc TT_EXACT bm) fen d' (- INFINITY) INFINITY = Some sc"
    by (simp add: ttSet_def ttGet_def)
  from probe cond wr nwr after show ?thesis by blast
qed

theorem tt_probe_store_witness:
  "tt_writes Map.empty start_fen 3 \<and> (2::int) \<le> 3
   \<and> ttGet (ttSet Map.empty start_fen 3 20 TT_EXACT None) start_fen 2 (- INFINITY) INFINITY
       = Some 20
   \<and> \<not> tt_writes (tt_deeper_upper start_fen) start_fen 3
   \<and> ttSet (tt_deeper_upper start_fen) start_fen 3 20 TT_EXACT None = tt_deeper_upper start_fen"
proof -
  have w: "tt_writes Map.empty start_fen 3"
    by (simp add: tt_writes_def)
  have n: "\<not> tt_writes (tt_deeper_upper start_fen) start_fen 3"
    by (simp add: tt_writes_def tt_deeper_upper_def)
  have le: "(2::int) \<le> 3"
    by simp
  have a: "ttGet (ttSet Map.empty start_fen 3 20 TT_EXACT None) start_fen 2
             (- INFINITY) INFINITY = Some 20"
    using tt_probe_store [of Map.empty start_fen 0 0 0 0 3 20 TT_EXACT None 2] w le by blast
  have b: "ttSet (tt_deeper_upper start_fen) start_fen 3 20 TT_EXACT None
             = tt_deeper_upper start_fen"
    using tt_probe_store [of "tt_deeper_upper start_fen" start_fen 0 0 0 0 3 20 TT_EXACT None 2] n
    by blast
  from w n a b show ?thesis by simp
qed

section \<open>The plan generator: count and order\<close>

lemma chess_move_undo:
  "m \<in> set (lib_moves lib (cur c)) \<Longrightarrow> chess_undo (chess_move lib c m) = c"
  by (simp add: chess_move_def chess_undo_def)

lemma set_js_slice0: "set (js_slice0 xs n) \<subseteq> set xs"
  by (auto simp: js_slice0_def dest: in_set_takeD)

lemma length_js_slice0: "length (js_slice0 xs n) \<le> length xs"
  by (auto simp: js_slice0_def)

lemma length_l2_tasks: "length (l2_tasks lib q D i rm rps) = length rps"
  by (induction rps arbitrary: i) simp_all

lemma length_plan_block:
  "length (plan_block lib p M D k n rm) = 1 + reply_budget M k (n + 1) (reply_count lib p rm)"
  by (simp add: plan_block_def length_l2_tasks reply_budget_def reply_count_def)

lemma length_plan_blocks:
  "n + length (plan_blocks lib p M D k n rms) = plan_count M k n (map (reply_count lib p) rms)"
proof (induction rms arbitrary: n)
  case Nil
  show ?case by simp
next
  case (Cons rm rms)
  show ?case
  proof (cases "int n \<ge> M")
    case True
    then show ?thesis by simp
  next
    case False
    have "n + length (plan_blocks lib p M D k n (rm # rms))
        = (n + length (plan_block lib p M D k n rm))
          + length (plan_blocks lib p M D k (n + length (plan_block lib p M D k n rm)) rms)"
      using False by simp
    also have "\<dots> = plan_count M k (n + length (plan_block lib p M D k n rm))
                        (map (reply_count lib p) rms)"
      by (rule Cons.IH)
    finally show ?thesis using False by (simp add: length_plan_block)
  qed
qed

lemma gen_replies_exact:
  "set rps \<subseteq> set (lib_moves lib (cur c)) \<Longrightarrow> int (length tasks) + int (length rps) \<le> M \<Longrightarrow>
   gen_replies lib M D rm rps (c, tasks, i)
     = (c, tasks @ l2_tasks lib (cur c) D i rm rps, i + length rps)"
proof (induction rps arbitrary: tasks i)
  case Nil
  then show ?case by simp
next
  case (Cons rp rps)
  have rp: "rp \<in> set (lib_moves lib (cur c))" and rps: "set rps \<subseteq> set (lib_moves lib (cur c))"
    using Cons.prems by auto
  have lt: "\<not> int (length tasks) \<ge> M"
    using Cons.prems(2) by simp
  have mk: "cur (chess_move lib c rp) = lib_make lib (cur c) rp"
    using rp by (simp add: chess_move_def)
  have step: "gen_reply lib D rm rp (c, tasks, i)
      = (c, tasks @ [l2_task lib (cur c) D i rm rp], i + 1)"
    using chess_move_undo [OF rp] mk by (simp add: gen_reply_def Let_def l2_task_def)
  have "int (length (tasks @ [l2_task lib (cur c) D i rm rp])) + int (length rps) \<le> M"
    using Cons.prems(2) by simp
  from Cons.IH [OF rps this, of "i + 1"] lt step show ?case
    by simp
qed

lemma ceiling_div_le:
  assumes "(0::int) \<le> x" and "1 \<le> k"
  shows "\<lceil>(of_int x :: rat) / of_nat k\<rceil> \<le> x"
proof -
  have "(of_int x :: rat) / of_nat k \<le> of_int x"
    using assms by (simp add: divide_le_eq_1 field_simps mult_le_cancel_left1)
  then have "\<lceil>(of_int x :: rat) / of_nat k\<rceil> \<le> \<lceil>(of_int x :: rat)\<rceil>"
    by (rule ceiling_mono)
  then show ?thesis by simp
qed

lemma gen_root_exact:
  assumes rm: "rm \<in> set (lib_moves lib (cur c))" and lt: "int (length tasks) < M"
    and k: "1 \<le> k"
  shows "gen_root lib M D k rm (c, tasks, length tasks)
     = (c, tasks @ plan_block lib (cur c) M D k (length tasks) rm,
        length tasks + length (plan_block lib (cur c) M D k (length tasks) rm))"
proof -
  define c1 where "c1 = chess_move lib c rm"
  define q where "q = lib_make lib (cur c) rm"
  have c1: "cur c1 = q"
    using rm by (simp add: c1_def q_def chess_move_def)
  have undo: "chess_undo c1 = c"
    using chess_move_undo [OF rm] by (simp add: c1_def)
  define t where "t = l1_task lib (cur c) D (length tasks) rm"
  define x where "x = M - int (length tasks + 1)"
  define n where "n = \<lceil>(of_int x :: rat) / of_nat k\<rceil>"
  have x0: "0 \<le> x" using lt by (simp add: x_def)
  have "(0::rat) \<le> of_int x / of_nat k"
    using x0 by simp
  then have "(- 1 :: rat) < of_int x / of_nat k"
    by linarith
  then have n0: "0 \<le> n"
    unfolding n_def by (simp add: zero_le_ceiling)
  have nx: "n \<le> x"
    unfolding n_def using x0 k by (rule ceiling_div_le)
  define b where "b = reply_budget M k (length tasks + 1) (reply_count lib (cur c) rm)"
  have b: "b = min (length (lib_moves lib q)) (nat n)"
    by (simp add: b_def reply_budget_def reply_count_def q_def n_def x_def)
  define rps where "rps = take b (lib_moves lib q)"
  have sl: "js_slice0 (lib_moves lib q) n = rps"
    using n0 by (simp add: js_slice0_def rps_def b min_def)
  have sub: "set rps \<subseteq> set (lib_moves lib (cur c1))"
    unfolding c1 rps_def by (rule set_take_subset)
  have "int (length rps) \<le> n"
    using n0 by (simp add: rps_def b)
  then have room: "int (length (tasks @ [t])) + int (length rps) \<le> M"
    using nx by (simp add: x_def)
  have g: "gen_root lib M D k rm (c, tasks, length tasks) =
          (let st2 = gen_replies lib M D rm rps (c1, tasks @ [t], length tasks + 1)
           in (chess_undo (fst st2), fst (snd st2), snd (snd st2)))"
    unfolding sl [symmetric] n_def x_def t_def l1_task_def
    by (simp add: gen_root_def Let_def c1_def [symmetric] c1 q_def)
  have "gen_replies lib M D rm rps (c1, tasks @ [t], length tasks + 1)
      = (c1, (tasks @ [t]) @ l2_tasks lib (cur c1) D (length tasks + 1) rm rps,
         length tasks + 1 + length rps)"
    by (rule gen_replies_exact [OF sub room])
  with g undo have "gen_root lib M D k rm (c, tasks, length tasks)
      = (c, tasks @ t # l2_tasks lib q D (length tasks + 1) rm rps,
         length tasks + 1 + length rps)"
    by (simp add: c1)
  moreover have "plan_block lib (cur c) M D k (length tasks) rm
      = t # l2_tasks lib q D (length tasks + 1) rm rps"
    by (simp add: plan_block_def t_def rps_def b_def q_def)
  ultimately show ?thesis
    by (simp add: length_l2_tasks)
qed

lemma gen_roots_exact:
  "set rms \<subseteq> set (lib_moves lib (cur c)) \<Longrightarrow> 1 \<le> k \<Longrightarrow>
   gen_roots lib M D k rms (c, tasks, length tasks)
     = (c, tasks @ plan_blocks lib (cur c) M D k (length tasks) rms,
        length tasks + length (plan_blocks lib (cur c) M D k (length tasks) rms))"
proof (induction rms arbitrary: tasks)
  case Nil
  show ?case by simp
next
  case (Cons rm rms)
  show ?case
  proof (cases "int (length tasks) \<ge> M")
    case True
    then show ?thesis by simp
  next
    case False
    have rm: "rm \<in> set (lib_moves lib (cur c))" and rms: "set rms \<subseteq> set (lib_moves lib (cur c))"
      using Cons.prems by auto
    from False have lt: "int (length tasks) < M" by simp
    define blk where "blk = plan_block lib (cur c) M D k (length tasks) rm"
    have r: "gen_root lib M D k rm (c, tasks, length tasks)
        = (c, tasks @ blk, length (tasks @ blk))"
      using gen_root_exact [OF rm lt Cons.prems(2), of D] by (simp add: blk_def)
    have "gen_roots lib M D k rms (c, tasks @ blk, length (tasks @ blk))
        = (c, (tasks @ blk) @ plan_blocks lib (cur c) M D k (length (tasks @ blk)) rms,
           length (tasks @ blk)
             + length (plan_blocks lib (cur c) M D k (length (tasks @ blk)) rms))"
      by (rule Cons.IH [OF rms Cons.prems(2)])
    then show ?thesis
      using False r by (simp add: blk_def)
  qed
qed

lemma reply_budget_full:
  assumes k: "1 \<le> k" and room: "int k * int r \<le> M - int e"
  shows "reply_budget M k e r = r"
proof -
  have kp: "(0::rat) < of_nat k"
    using k by simp
  have "(of_int (int k * int r) :: rat) \<le> of_int (M - int e)"
    using room by (simp only: of_int_le_iff)
  then have "(of_nat r :: rat) * of_nat k \<le> of_int (M - int e)"
    by (simp add: mult.commute)
  then have "(of_nat r :: rat) \<le> of_int (M - int e) / of_nat k"
    using kp by (simp add: le_divide_eq)
  then have "(of_int (int r) :: rat) \<le> of_int (M - int e) / of_nat k"
    by simp
  then have "int r \<le> \<lceil>(of_int (M - int e) :: rat) / of_nat k\<rceil>"
    by (simp only: le_ceiling_iff le_of_int_ceiling order_trans)
  then show ?thesis
    by (simp add: reply_budget_def)
qed

lemma plan_count_full:
  assumes "\<forall>r \<in> set rs. r \<le> R" and "1 \<le> k"
    and "int n + int (length rs) + int (sum_list rs) + int k * int R \<le> M"
  shows "plan_count M k n rs = n + length rs + sum_list rs"
  using assms
proof (induction rs arbitrary: n)
  case Nil
  show ?case by simp
next
  case (Cons r rs)
  have kR: "0 \<le> int k * int R"
    by simp
  from Cons.prems(3)
  have p3: "int n + (1 + int (length rs)) + (int r + int (sum_list rs)) + int k * int R \<le> M"
    by simp
  have lt: "\<not> int n \<ge> M"
    using kR p3 by linarith
  have rR: "r \<le> R" and rest: "\<forall>r \<in> set rs. r \<le> R"
    using Cons.prems(1) by simp_all
  have "int k * int r \<le> int k * int R"
    using rR by (simp add: mult_left_mono)
  then have "int k * int r \<le> M - int (n + 1)"
    using Cons.prems(3) by simp
  then have b: "reply_budget M k (n + 1) r = r"
    by (rule reply_budget_full [OF Cons.prems(2)])
  have "int (n + 1 + r) + int (length rs) + int (sum_list rs) + int k * int R \<le> M"
    using Cons.prems(3) by simp
  from Cons.IH [OF rest Cons.prems(2) this] lt b show ?case
    by simp
qed

text \<open>
  Claim C7, as stated, on concrete inputs. In the pawn ending there are two root moves
  with three replies each, so \<open>1 + k + \<Sum>replies = 9\<close>; with \<open>maxPlans = 8\<close> the generator
  emits seven tasks, not eight, and the level-2 tasks of the first root move come before
  the level-1 task of the second. With \<open>maxPlans = 0\<close> it still emits the root task. On
  the stalemate position, where \<open>k = 0\<close>, it emits no task at all.
\<close>

theorem generate_count_counterexample:
  "map_option (map t_taskId) (generate pawn_lib pawn_fen 8 6)
     = Some [''root'', ''l1-1'', ''l2-2'', ''l2-3'', ''l2-4'', ''l1-5'', ''l2-6'']
   \<and> length (lib_moves pawn_lib pawn_pos) = 2
   \<and> (\<Sum>rm \<leftarrow> lib_moves pawn_lib pawn_pos. reply_count pawn_lib pawn_pos rm) = 6
   \<and> map_option (map t_taskId) (generate pawn_lib pawn_fen 0 6) = Some [''root'']
   \<and> generate terminal_lib (pos_fen stalemate_pos) 32 6 = Some []"
proof -
  have a: "map_option (map t_taskId) (generate pawn_lib pawn_fen 8 6)
     = Some [''root'', ''l1-1'', ''l2-2'', ''l2-3'', ''l2-4'', ''l1-5'', ''l2-6'']"
    by code_simp
  have b: "length (lib_moves pawn_lib pawn_pos) = 2"
    by code_simp
  have c: "(\<Sum>rm \<leftarrow> lib_moves pawn_lib pawn_pos. reply_count pawn_lib pawn_pos rm) = 6"
    by code_simp
  have d: "map_option (map t_taskId) (generate pawn_lib pawn_fen 0 6) = Some [''root'']"
    by code_simp
  have e: "generate terminal_lib (pos_fen stalemate_pos) 32 6 = Some []"
    by code_simp
  from a b c d e show ?thesis by simp
qed

text \<open>
  Claim C7 (amended). For a FEN that loads, with \<open>k\<close> legal root moves: when \<open>k = 0\<close> the
  generator emits no task. When \<open>k \<ge> 1\<close> the first task is the root task (taskId
  \<open>root\<close>, the input FEN); after it, root move by root move in enumeration order and as
  long as fewer than \<open>maxPlans\<close> tasks have been emitted, come the level-1 task of the
  root move and directly after it the level-2 tasks of its first
  \<open>min(replies, ceil((maxPlans - emitted) / k))\<close> replies, \<open>emitted\<close> counting the tasks up
  to that level-1 task; the task ids number the tasks in this order. The number of tasks
  is the count this budget yields, and it is \<open>1 + k + \<Sum>replies\<close> when \<open>maxPlans\<close> is at
  least \<open>1 + k + \<Sum>replies + k R\<close>, no root move having more than \<open>R\<close> replies.
\<close>

theorem generate_count_and_order:
  assumes load: "lib_load lib fen = Some pos"
  shows "generate lib fen M D
       = Some (if lib_moves lib pos = [] then []
               else root_task fen D (length (lib_moves lib pos))
                    # plan_blocks lib pos M D (length (lib_moves lib pos)) 1 (lib_moves lib pos))
     \<and> map_option length (generate lib fen M D)
       = Some (if lib_moves lib pos = [] then 0
               else plan_count M (length (lib_moves lib pos)) 1
                      (map (reply_count lib pos) (lib_moves lib pos)))
     \<and> (lib_moves lib pos \<noteq> []
        \<and> (\<forall>rm \<in> set (lib_moves lib pos). reply_count lib pos rm \<le> R)
        \<and> 1 + int (length (lib_moves lib pos))
            + int (\<Sum>rm \<leftarrow> lib_moves lib pos. reply_count lib pos rm)
            + int (length (lib_moves lib pos)) * int R \<le> M
        \<longrightarrow> map_option length (generate lib fen M D)
            = Some (1 + length (lib_moves lib pos)
                    + (\<Sum>rm \<leftarrow> lib_moves lib pos. reply_count lib pos rm)))"
proof -
  define k where "k = length (lib_moves lib pos)"
  define rs where "rs = map (reply_count lib pos) (lib_moves lib pos)"
  have a: "generate lib fen M D
       = Some (if lib_moves lib pos = [] then []
               else root_task fen D k # plan_blocks lib pos M D k 1 (lib_moves lib pos))"
  proof (cases "lib_moves lib pos = []")
    case True
    then show ?thesis using load by (simp add: generate_def chess_new_def)
  next
    case False
    define c where "c = \<lparr>cur = pos, hist = []\<rparr>"
    have k: "1 \<le> k"
      using False by (cases "lib_moves lib pos") (simp_all add: k_def)
    have sub: "set (lib_moves lib pos) \<subseteq> set (lib_moves lib (cur c))"
      by (simp add: c_def)
    have cn: "chess_new lib fen = Some c"
      using load by (simp add: chess_new_def c_def)
    have cc: "cur c = pos"
      by (simp add: c_def)
    have "gen_roots lib M D k (lib_moves lib pos)
            (c, [root_task fen D k], length [root_task fen D k])
        = (c, [root_task fen D k] @ plan_blocks lib (cur c) M D k (length [root_task fen D k])
                                    (lib_moves lib pos),
           length [root_task fen D k]
             + length (plan_blocks lib (cur c) M D k (length [root_task fen D k])
                         (lib_moves lib pos)))"
      by (rule gen_roots_exact [OF sub k])
    then show ?thesis
      unfolding generate_def cn using False
      by (simp add: Let_def cc k_def root_task_def)
  qed
  have len: "1 + length (plan_blocks lib pos M D k 1 (lib_moves lib pos)) = plan_count M k 1 rs"
    unfolding rs_def by (rule length_plan_blocks)
  have b: "map_option length (generate lib fen M D)
       = Some (if lib_moves lib pos = [] then 0 else plan_count M k 1 rs)"
    unfolding a using len by simp
  have c: "lib_moves lib pos \<noteq> []
        \<and> (\<forall>rm \<in> set (lib_moves lib pos). reply_count lib pos rm \<le> R)
        \<and> 1 + int k + int (sum_list rs) + int k * int R \<le> M
        \<longrightarrow> map_option length (generate lib fen M D) = Some (1 + k + sum_list rs)"
  proof (intro impI, elim conjE)
    assume ne: "lib_moves lib pos \<noteq> []"
      and R: "\<forall>rm \<in> set (lib_moves lib pos). reply_count lib pos rm \<le> R"
      and M: "1 + int k + int (sum_list rs) + int k * int R \<le> M"
    have k: "1 \<le> k"
      using ne by (cases "lib_moves lib pos") (simp_all add: k_def)
    have R': "\<forall>r \<in> set rs. r \<le> R"
      using R by (simp add: rs_def)
    have M': "int 1 + int (length rs) + int (sum_list rs) + int k * int R \<le> M"
      using M by (simp add: rs_def k_def)
    have "plan_count M k 1 rs = 1 + length rs + sum_list rs"
      by (rule plan_count_full [OF R' k M'])
    with b ne show "map_option length (generate lib fen M D) = Some (1 + k + sum_list rs)"
      by (simp add: rs_def k_def)
  qed
  from a b c show ?thesis
    unfolding k_def rs_def by simp
qed

theorem generate_count_and_order_witness:
  "lib_load pawn_lib pawn_fen = Some pawn_pos
   \<and> lib_moves pawn_lib pawn_pos \<noteq> []
   \<and> map (reply_count pawn_lib pawn_pos) (lib_moves pawn_lib pawn_pos) = [3, 3]
   \<and> map_option length (generate pawn_lib pawn_fen 100 6) = Some 9
   \<and> plan_count 8 2 1 [3, 3] = 7
   \<and> map_option length (generate pawn_lib pawn_fen 8 6) = Some 7
   \<and> map_option (map t_taskId) (generate pawn_lib pawn_fen 8 6)
       = Some (map t_taskId (root_task pawn_fen 6 2
                 # plan_blocks pawn_lib pawn_pos 8 6 2 1 (lib_moves pawn_lib pawn_pos)))"
proof -
  have l: "lib_load pawn_lib pawn_fen = Some pawn_pos"
    by code_simp
  have rs: "map (reply_count pawn_lib pawn_pos) (lib_moves pawn_lib pawn_pos) = [3, 3]"
    by code_simp
  have k: "length (lib_moves pawn_lib pawn_pos) = 2"
    using arg_cong [OF rs, of length] by simp
  then have ne: "lib_moves pawn_lib pawn_pos \<noteq> []"
    by auto
  have R: "\<forall>rm \<in> set (lib_moves pawn_lib pawn_pos). reply_count pawn_lib pawn_pos rm \<le> 3"
  proof
    fix rm assume "rm \<in> set (lib_moves pawn_lib pawn_pos)"
    then have "reply_count pawn_lib pawn_pos rm
        \<in> set (map (reply_count pawn_lib pawn_pos) (lib_moves pawn_lib pawn_pos))"
      by simp
    then show "reply_count pawn_lib pawn_pos rm \<le> 3"
      unfolding rs by auto
  qed
  have sm: "(\<Sum>rm \<leftarrow> lib_moves pawn_lib pawn_pos. reply_count pawn_lib pawn_pos rm) = 6"
    unfolding rs by simp
  have pc: "plan_count 8 2 1 [3, 3] = 7"
    by code_simp
  note t100 = generate_count_and_order [OF l, of 100 6 3]
  note t8 = generate_count_and_order [OF l, of 8 6 3]
  have M: "1 + int (length (lib_moves pawn_lib pawn_pos))
            + int (\<Sum>rm \<leftarrow> lib_moves pawn_lib pawn_pos. reply_count pawn_lib pawn_pos rm)
            + int (length (lib_moves pawn_lib pawn_pos)) * int 3 \<le> 100"
    unfolding k sm by simp
  from t100 ne R M have "map_option length (generate pawn_lib pawn_fen 100 6)
      = Some (1 + length (lib_moves pawn_lib pawn_pos)
              + (\<Sum>rm \<leftarrow> lib_moves pawn_lib pawn_pos. reply_count pawn_lib pawn_pos rm))"
    by blast
  then have a: "map_option length (generate pawn_lib pawn_fen 100 6) = Some 9"
    unfolding k sm by simp
  from t8 have "map_option length (generate pawn_lib pawn_fen 8 6)
       = Some (if lib_moves pawn_lib pawn_pos = [] then 0
               else plan_count 8 (length (lib_moves pawn_lib pawn_pos)) 1
                      (map (reply_count pawn_lib pawn_pos) (lib_moves pawn_lib pawn_pos)))"
    by blast
  then have b: "map_option length (generate pawn_lib pawn_fen 8 6) = Some 7"
    unfolding k rs using ne pc by simp
  from t8 have "generate pawn_lib pawn_fen 8 6
       = Some (if lib_moves pawn_lib pawn_pos = [] then []
               else root_task pawn_fen 6 (length (lib_moves pawn_lib pawn_pos))
                    # plan_blocks pawn_lib pawn_pos 8 6 (length (lib_moves pawn_lib pawn_pos)) 1
                        (lib_moves pawn_lib pawn_pos))"
    by blast
  then have c: "map_option (map t_taskId) (generate pawn_lib pawn_fen 8 6)
       = Some (map t_taskId (root_task pawn_fen 6 2
                 # plan_blocks pawn_lib pawn_pos 8 6 2 1 (lib_moves pawn_lib pawn_pos)))"
    unfolding k using ne by simp
  from l ne rs a pc b c show ?thesis
    by blast
qed

section \<open>The coordinator's emissions\<close>

lemma map_fst_replace: "map fst (map (\<lambda>e. if fst e = k then (k, v) else e) m) = map fst m"
  by (induction m) auto

lemma map_fst_map_set:
  "map fst (map_set k v m) = (if k \<in> fst ` set m then map fst m else map fst m @ [k])"
  by (simp add: map_set_def map_fst_replace)

lemma map_set_keys: "fst ` set (map_set k v m) = insert k (fst ` set m)"
proof -
  have "fst ` set (map_set k v m) = set (map fst (map_set k v m))"
    by simp
  also have "\<dots> = insert k (fst ` set m)"
    unfolding map_fst_map_set by auto
  finally show ?thesis .
qed

lemma map_set_distinct: "distinct (map fst m) \<Longrightarrow> distinct (map fst (map_set k v m))"
  unfolding map_fst_map_set by auto

lemma co_inv_start: "co_inv tasks (start_tasks mp tasks)"
  by (cases tasks)
     (auto simp: co_inv_def start_tasks_def after_await_def emit_def all_settled_def
        resolved_ids_def list_all_iff)

lemma co_inv_handle:
  assumes inv: "co_inv tasks co" and ns: "ev \<noteq> StopCall"
  shows "co_inv tasks (handle co ev)"
proof (cases ev)
  case StopCall
  with ns show ?thesis by simp
next
  case (Settle i oc)
  show ?thesis
  proof (cases "i < length (co_settled co) \<and> \<not> co_settled co ! i")
    case False
    then have "handle co ev = co"
      using Settle by (auto simp: handle_def)
    then show ?thesis using inv by simp
  next
    case True
    then have nall: "\<not> all_settled co"
      by (auto simp: all_settled_def list_all_length)
    with inv have run: "co_running co" and nofin: "\<forall>e \<in> set (co_emitted co). \<not> em_final e"
      by (simp_all add: co_inv_def)
    define co1 where "co1 = co\<lparr>co_settled := (co_settled co)[i := True]\<rparr>"
    define co2 where "co2 = (case oc of
                          Fulfilled r \<Rightarrow>
                            (then_callback co1 (co_tasks co1 ! i) r)
                              \<lparr>co_resolved := co_resolved co1 @ [i]\<rparr>
                        | Rejected \<Rightarrow> co1)"
    have h: "handle co ev = (if all_settled co2 then after_await co2 else co2)"
      unfolding co2_def co1_def using True Settle by (simp add: handle_def Let_def)
    have p2: "co_tasks co2 = tasks \<and> length (co_settled co2) = length tasks
       \<and> co_running co2 \<and> (\<forall>e \<in> set (co_emitted co2). \<not> em_final e)
       \<and> length (filter (\<lambda>e. \<not> em_final e) (co_emitted co2)) = length (co_resolved co2)
       \<and> distinct (map fst (co_results co2))
       \<and> fst ` set (co_results co2) = resolved_ids co2
       \<and> distinct (co_resolved co2)
       \<and> (\<forall>j \<in> set (co_resolved co2). j < length (co_settled co2) \<and> co_settled co2 ! j)"
    proof (cases oc)
      case Rejected
      then show ?thesis using inv run nofin True
        by (auto simp: co2_def co1_def co_inv_def resolved_ids_def nth_list_update)
    next
      case (Fulfilled r)
      then show ?thesis using inv run nofin True
        by (auto simp: co2_def co1_def co_inv_def resolved_ids_def then_callback_def emit_def
            map_set_keys map_set_distinct nth_list_update)
    qed
    show ?thesis
    proof (cases "all_settled co2")
      case False
      then have "co_inv tasks co2"
        unfolding co_inv_def using p2 by blast
      then show ?thesis using h False by simp
    next
      case True
      have aw: "after_await co2 = co2\<lparr>co_running := False, co_emitted := co_emitted co2 @
            [\<lparr>em_nodes = co_totalNodes co2, em_tasks = length (co_results co2),
              em_total = co_maxPlans co2, em_final = True\<rparr>]\<rparr>"
        using p2 by (simp add: after_await_def emit_def)
      have nf: "filter (\<lambda>e. \<not> em_final e) (co_emitted co2) = co_emitted co2"
        using p2 by (simp add: filter_id_conv)
      have len: "length (co_emitted co2) = length (co_resolved co2)"
        using p2 nf by simp
      have "co_inv tasks (after_await co2)"
        unfolding aw using True p2 len
        by (auto simp: co_inv_def all_settled_def resolved_ids_def)
      then show ?thesis using h True by simp
    qed
  qed
qed

lemma co_inv_run:
  "co_inv tasks co \<Longrightarrow> StopCall \<notin> set evs \<Longrightarrow> co_inv tasks (foldl handle co evs)"
proof (induction evs arbitrary: co)
  case Nil
  then show ?case by simp
next
  case (Cons ev evs)
  from Cons.prems have "co_inv tasks (handle co ev)"
    by (auto intro: co_inv_handle)
  with Cons show ?case by simp
qed

lemma settled_in_iff: "settled_in evs i \<longleftrightarrow> (\<exists>oc. Settle i oc \<in> set evs)"
  by (induction evs) (auto split: cevent.splits)

lemma fulfilled_in_snoc:
  "fulfilled_in (evs @ [ev]) i \<longleftrightarrow>
     fulfilled_in evs i \<or> (\<not> settled_in evs i \<and> (\<exists>r. ev = Settle i (Fulfilled r)))"
proof (induction evs)
  case Nil
  show ?case by (auto simp: settled_in_iff split: cevent.splits outcome.splits)
next
  case (Cons e evs)
  then show ?case
    by (auto simp: settled_in_iff split: cevent.splits outcome.splits)
qed

lemma settled_in_snoc:
  "settled_in (evs @ [ev]) i \<longleftrightarrow> settled_in evs i \<or> (\<exists>oc. ev = Settle i oc)"
  by (auto simp: settled_in_iff)

lemma fulfilled_settled: "fulfilled_in evs i \<Longrightarrow> settled_in evs i"
  by (induction evs) (auto simp: settled_in_iff split: cevent.splits outcome.splits if_splits)

lemma co_tie_start: "co_tie tasks [] (start_tasks mp tasks)"
  by (auto simp: co_tie_def start_tasks_def after_await_def emit_def settled_in_iff Let_def)

lemma after_await_fields:
  "co_settled (after_await co) = co_settled co \<and> co_resolved (after_await co) = co_resolved co"
  by (simp add: after_await_def emit_def)

lemma then_callback_fields:
  "co_settled (then_callback co t r) = co_settled co
   \<and> co_resolved (then_callback co t r) = co_resolved co"
  by (simp add: then_callback_def emit_def)

lemma co_tie_handle:
  assumes tie: "co_tie tasks evs co"
  shows "co_tie tasks (evs @ [ev]) (handle co ev)"
proof (cases ev)
  case StopCall
  then show ?thesis using tie
    by (auto simp: co_tie_def handle_def fulfilled_in_snoc settled_in_snoc)
next
  case (Settle i oc)
  show ?thesis
  proof (cases "i < length (co_settled co) \<and> \<not> co_settled co ! i")
    case False
    then have h: "handle co ev = co"
      using Settle by (auto simp: handle_def)
    from False tie have "i < length tasks \<longrightarrow> settled_in evs i"
      by (auto simp: co_tie_def)
    then show ?thesis unfolding h using tie Settle
      by (auto simp: co_tie_def fulfilled_in_snoc settled_in_snoc)
  next
    case True
    with tie have i: "i < length tasks" and ns: "\<not> settled_in evs i"
      by (auto simp: co_tie_def)
    have s: "co_settled (handle co ev) = (co_settled co)[i := True]"
      using True Settle
      by (auto simp: handle_def Let_def after_await_fields then_callback_fields
          split: outcome.splits)
    have r: "co_resolved (handle co ev)
        = (case oc of Fulfilled r \<Rightarrow> co_resolved co @ [i] | Rejected \<Rightarrow> co_resolved co)"
      using True Settle
      by (auto simp: handle_def Let_def after_await_fields then_callback_fields
          split: outcome.splits)
    show ?thesis
      unfolding co_tie_def s r using tie i ns Settle
      by (auto simp: co_tie_def fulfilled_in_snoc settled_in_snoc nth_list_update
          split: outcome.splits)
  qed
qed

lemma co_tie_run: "co_tie tasks evs (run mp tasks evs)"
proof (induction evs rule: rev_induct)
  case Nil
  show ?case by (simp add: run_def co_tie_start)
next
  case (snoc ev evs)
  have "run mp tasks (evs @ [ev]) = handle (run mp tasks evs) ev"
    by (simp add: run_def)
  then show ?case using co_tie_handle [OF snoc] by simp
qed


lemma all_False_replicate: "\<forall>x \<in> set ys. \<not> x \<Longrightarrow> ys = replicate (length ys) False"
  by (induction ys) auto

lemma final_last_shape:
  assumes "xs \<noteq> []" and "last xs" and "\<forall>x \<in> set (butlast xs). \<not> x"
  shows "xs = replicate (length xs - 1) False @ [True]"
proof (cases xs rule: rev_cases)
  case Nil
  with assms(1) show ?thesis by simp
next
  case (snoc ys y)
  with assms(2) have y: "y = True" by simp
  from snoc assms(3) have "\<forall>x \<in> set ys. \<not> x" by simp
  then have "ys = replicate (length ys) False" by (rule all_False_replicate)
  then have "ys @ [True] = replicate (length ys) False @ [True]" by simp
  then show ?thesis unfolding snoc y by simp
qed

lemma run_final_shape:
  assumes ns: "StopCall \<notin> set evs" and fin: "\<forall>i < length tasks. settled_in evs i"
  shows "map em_final (co_emitted (run mp tasks evs))
           = replicate (length (fulfilled_tasks tasks evs)) False @ [True]
     \<and> em_tasks (last (co_emitted (run mp tasks evs)))
           = length (remdups (map (\<lambda>i. t_taskId (tasks ! i)) (fulfilled_tasks tasks evs)))
     \<and> co_tasks (run mp tasks evs) = tasks"
proof -
  define co where "co = run mp tasks evs"
  have inv: "co_inv tasks co"
    unfolding co_def run_def using co_inv_start ns by (rule co_inv_run)
  have tie: "co_tie tasks evs co"
    unfolding co_def by (rule co_tie_run)
  have all: "all_settled co"
    using tie fin by (auto simp: co_tie_def all_settled_def list_all_length)
  from inv all have e: "co_emitted co \<noteq> []" "em_final (last (co_emitted co))"
    "\<forall>e \<in> set (butlast (co_emitted co)). \<not> em_final e"
    "em_tasks (last (co_emitted co)) = length (co_results co)"
    by (simp_all add: co_inv_def)
  have rs: "set (co_resolved co) = set (fulfilled_tasks tasks evs)"
    using tie by (auto simp: co_tie_def fulfilled_tasks_def)
  have dr: "distinct (co_resolved co)"
    using inv by (simp add: co_inv_def)
  have df: "distinct (fulfilled_tasks tasks evs)"
    by (simp add: fulfilled_tasks_def)
  have len: "length (co_resolved co) = length (fulfilled_tasks tasks evs)"
    using rs dr df by (metis distinct_card)
  have split: "co_emitted co = butlast (co_emitted co) @ [last (co_emitted co)]"
    using e(1) by simp
  have nf: "filter (\<lambda>e. \<not> em_final e) (co_emitted co) = butlast (co_emitted co)"
    using e(2,3) by (subst split) (simp add: filter_id_conv)
  have "length (butlast (co_emitted co)) = length (co_resolved co)"
    using inv nf by (simp add: co_inv_def)
  then have n: "length (co_emitted co) - 1 = length (fulfilled_tasks tasks evs)"
    using len by simp
  have shape: "map em_final (co_emitted co)
      = replicate (length (map em_final (co_emitted co)) - 1) False @ [True]"
  proof (rule final_last_shape)
    show "map em_final (co_emitted co) \<noteq> []" using e(1) by simp
    show "last (map em_final (co_emitted co))" using e(1,2) by (simp add: last_map)
    show "\<forall>x \<in> set (butlast (map em_final (co_emitted co))). \<not> x"
      using e(3) by (auto simp: map_butlast [symmetric])
  qed
  have a: "map em_final (co_emitted co)
      = replicate (length (fulfilled_tasks tasks evs)) False @ [True]"
    using shape n by simp
  have ct: "co_tasks co = tasks"
    using inv by (simp add: co_inv_def)
  have "length (co_results co) = card (set (map fst (co_results co)))"
    using inv by (simp add: co_inv_def distinct_card del: set_map)
  also have "\<dots> = card (resolved_ids co)"
    using inv by (simp add: co_inv_def)
  also have "resolved_ids co = set (map (\<lambda>i. t_taskId (tasks ! i)) (fulfilled_tasks tasks evs))"
    using rs ct by (simp add: resolved_ids_def)
  also have "card \<dots> = length (remdups (map (\<lambda>i. t_taskId (tasks ! i)) (fulfilled_tasks tasks evs)))"
    by (rule List.card_set)
  finally have b: "em_tasks (last (co_emitted co))
      = length (remdups (map (\<lambda>i. t_taskId (tasks ! i)) (fulfilled_tasks tasks evs)))"
    using e(4) by simp
  from a b ct show ?thesis unfolding co_def by simp
qed

text \<open>
  Claim C8, as stated, on concrete runs in the pawn ending. With \<open>maxPlans = 1\<close> the only
  task is the root task; when its promise is rejected, the run ends with one emission,
  the final one, whose \<open>tasks\<close> is 0 although one task has settled. With \<open>maxPlans = 2\<close>
  and both promises rejected there is one emission for two completed tasks.
\<close>

theorem coordinator_emissions_counterexample:
  "map_option (\<lambda>co. (all_settled co, length (co_settled co), map em_final (co_emitted co),
                     map em_tasks (co_emitted co)))
     (start pawn_lib pawn_fen 1 6 [Settle 0 Rejected]) = Some (True, 1, [True], [0])
   \<and> map_option (\<lambda>co. (all_settled co, length (co_settled co), map em_final (co_emitted co),
                     map em_tasks (co_emitted co)))
     (start pawn_lib pawn_fen 2 6 [Settle 0 Rejected, Settle 1 Rejected])
       = Some (True, 2, [True], [0])"
proof -
  have a: "map_option (\<lambda>co. (all_settled co, length (co_settled co), map em_final (co_emitted co),
                     map em_tasks (co_emitted co)))
     (start pawn_lib pawn_fen 1 6 [Settle 0 Rejected]) = Some (True, 1, [True], [0])"
    by code_simp
  have b: "map_option (\<lambda>co. (all_settled co, length (co_settled co), map em_final (co_emitted co),
                     map em_tasks (co_emitted co)))
     (start pawn_lib pawn_fen 2 6 [Settle 0 Rejected, Settle 1 Rejected])
       = Some (True, 2, [True], [0])"
    by code_simp
  from a b show ?thesis by simp
qed

text \<open>
  Claim C8 (amended). In a run of \<open>start\<close> during which \<open>stop()\<close> is not called and
  every promise settles: \<open>emit\<close> is called without \<open>final\<close> once for each task whose
  promise is fulfilled (a rejected promise is swallowed by \<open>.catch\<close> and emits nothing),
  then once with \<open>final = true\<close>, and this is the last emission; in it \<open>tasks\<close> is the
  number of distinct task ids among the tasks whose promise was fulfilled.
\<close>

theorem coordinator_emissions:
  assumes gen: "generate lib fen maxPlans maxDepth = Some tasks"
    and ns: "StopCall \<notin> set evs"
    and fin: "\<forall>i < length tasks. settled_in evs i"
  shows "\<exists>co. start lib fen maxPlans maxDepth evs = Some co
     \<and> map em_final (co_emitted co)
         = replicate (length (fulfilled_tasks tasks evs)) False @ [True]
     \<and> em_tasks (last (co_emitted co))
         = length (remdups (map (\<lambda>i. t_taskId (tasks ! i)) (fulfilled_tasks tasks evs)))"
  using run_final_shape [OF ns fin, of maxPlans] gen by (simp add: start_def)

theorem coordinator_emissions_witness:
  "generate pawn_lib pawn_fen 3 6 \<noteq> None
   \<and> (\<exists>co. start pawn_lib pawn_fen 3 6
              [Settle 1 (Fulfilled \<lparr>pl_nodes = Some 10\<rparr>), Settle 2 Rejected,
               Settle 1 Rejected, Settle 0 (Fulfilled \<lparr>pl_nodes = Some 20\<rparr>)] = Some co
          \<and> map em_final (co_emitted co) = [False, False, True]
          \<and> em_tasks (last (co_emitted co)) = 2)"
proof -
  define evs where "evs = [Settle 1 (Fulfilled \<lparr>pl_nodes = Some 10\<rparr>), Settle 2 Rejected,
               Settle 1 Rejected, Settle 0 (Fulfilled \<lparr>pl_nodes = Some 20\<rparr>)]"
  have "map_option (map t_taskId) (generate pawn_lib pawn_fen 3 6)
      = Some [''root'', ''l1-1'', ''l2-2'']"
    by code_simp
  then obtain tasks where g: "generate pawn_lib pawn_fen 3 6 = Some tasks"
    and ids: "map t_taskId tasks = [''root'', ''l1-1'', ''l2-2'']"
    by auto
  have "length (map t_taskId tasks) = 3"
    unfolding ids by simp
  then have len: "length tasks = 3"
    by simp
  have ns: "StopCall \<notin> set evs"
    by (simp add: evs_def)
  have fin: "\<forall>i < length tasks. settled_in evs i"
    unfolding len by (simp add: evs_def numeral_3_eq_3 less_Suc_eq)
  have ft: "fulfilled_tasks tasks evs = [0, 1]"
    unfolding fulfilled_tasks_def len by (simp add: evs_def numeral_3_eq_3 upt_rec)
  have "map t_taskId tasks ! 0 = ''root''" and "map t_taskId tasks ! 1 = ''l1-1''"
    unfolding ids by simp_all
  then have t0: "t_taskId (tasks ! 0) = ''root''" and t1: "t_taskId (tasks ! 1) = ''l1-1''"
    using len by simp_all
  from coordinator_emissions [OF g ns fin] obtain co where
    co: "start pawn_lib pawn_fen 3 6 evs = Some co"
      "map em_final (co_emitted co) = replicate (length (fulfilled_tasks tasks evs)) False @ [True]"
      "em_tasks (last (co_emitted co))
         = length (remdups (map (\<lambda>i. t_taskId (tasks ! i)) (fulfilled_tasks tasks evs)))"
    by blast
  have e1: "map em_final (co_emitted co) = [False, False, True]"
    using co(2) ft by simp
  have e2: "em_tasks (last (co_emitted co)) = 2"
    using co(3) ft t0 t1 by simp
  from g have g': "generate pawn_lib pawn_fen 3 6 \<noteq> None"
    by simp
  have "\<exists>co. start pawn_lib pawn_fen 3 6 evs = Some co
          \<and> map em_final (co_emitted co) = [False, False, True]
          \<and> em_tasks (last (co_emitted co)) = 2"
    using co(1) e1 e2 by (intro exI [of _ co] conjI)
  with g' show ?thesis
    unfolding evs_def by (rule conjI)
qed

section \<open>The search hands the chess object back\<close>

lemma for_break_inv:
  assumes step: "\<And>m st r. m \<in> set ms \<Longrightarrow> I st \<Longrightarrow> body m st = Some r \<Longrightarrow> I (snd r)"
    and init: "I st" and run: "for_break body ms st = Some st'"
  shows "I st'"
  using step init run
proof (induction ms arbitrary: st)
  case Nil
  then show ?case by simp
next
  case (Cons m ms)
  from Cons.prems(3) obtain r where r: "body m st = Some r"
    by (cases "body m st") auto
  have Ir: "I (snd r)"
    using Cons.prems(1) [of m st r] Cons.prems(2) r by simp
  show ?case
  proof (cases "fst r")
    case True
    with Cons.prems(3) r Ir show ?thesis by simp
  next
    case False
    with Cons.prems(3) r have "for_break body ms (snd r) = Some st'" by simp
    moreover have "\<And>m st r. m \<in> set ms \<Longrightarrow> I st \<Longrightarrow> body m st = Some r \<Longrightarrow> I (snd r)"
      by (rule Cons.prems(1)) simp_all
    ultimately show ?thesis using Cons.IH Ir by blast
  qed
qed

lemma qs_moves_subset: "set (qs_moves lib p) \<subseteq> set (lib_moves lib p)"
  by (auto simp: qs_moves_def)

lemma qs_step_keeps:
  assumes k: "qs_keeps qs" and m: "m \<in> set (lib_moves lib (cur c))"
    and c: "fst (snd st) = c" and r: "qs_step qs lib inCheck stand mx m st = Some r"
  shows "fst (snd (snd r)) = c"
proof (cases "qs_delta_skip inCheck stand mx (fst (snd (snd st))) (snd (snd (snd st))) m")
  case True
  with r c show ?thesis by (auto simp: qs_step_def Let_def)
next
  case False
  with r c obtain q where
    q: "qs (fst st) (chess_move lib c m) (fst (snd (snd st))) (snd (snd (snd st))) (\<not> mx) = Some q"
    by (auto simp: qs_step_def Let_def split: option.splits)
  with k have "snd (snd q) = chess_move lib c m"
    unfolding qs_keeps_def by blast
  then have "chess_undo (snd (snd q)) = c"
    using chess_move_undo [OF m] by simp
  with False r c q show ?thesis
    by (auto simp: qs_step_def Let_def)
qed

lemma quiescence_body_keeps:
  assumes k: "qs_keeps qs"
  shows "qs_keeps (quiescence_body qs ev lib)"
  unfolding qs_keeps_def
proof (intro allI impI)
  fix g c a b mx r
  assume r: "quiescence_body qs ev lib g c a b mx = Some r"
  define g1 where "g1 = g\<lparr>g_nodes := g_nodes g + 1\<rparr>"
  define stand where "stand = (if pos_in_check (cur c) then None else Some (ev (cur c) True))"
  define sp where "sp = (case stand of None \<Rightarrow> Inr (a, b) | Some st \<Rightarrow> qs_stand_pat st mx a b)"
  have body: "quiescence_body qs ev lib g c a b mx =
      (case sp of
           Inl v \<Rightarrow> Some (v, g1, c)
         | Inr w \<Rightarrow>
             if pos_in_check (cur c) \<and> lib_moves lib (cur c) = []
             then Some (if mx then - 30000 else 30000, g1, c)
             else
               (case for_break (qs_step qs lib (pos_in_check (cur c)) stand mx)
                       (qs_moves lib (cur c)) (g1, c, fst w, snd w) of
                  None \<Rightarrow> None
                | Some st \<Rightarrow>
                    Some (if mx then fst (snd (snd st)) else snd (snd (snd st)),
                          fst st, fst (snd st))))"
    unfolding quiescence_body_def Let_def g1_def stand_def sp_def by (rule refl)
  show "snd (snd r) = c"
  proof (cases sp)
    case (Inl v)
    with r body show ?thesis by auto
  next
    case (Inr w)
    show ?thesis
    proof (cases "pos_in_check (cur c) \<and> lib_moves lib (cur c) = []")
      case True
      with r body Inr show ?thesis by auto
    next
      case False
      with r body Inr obtain st where
        st: "for_break (qs_step qs lib (pos_in_check (cur c)) stand mx)
               (qs_moves lib (cur c)) (g1, c, fst w, snd w) = Some st"
        and rr: "r = (if mx then fst (snd (snd st)) else snd (snd (snd st)), fst st, fst (snd st))"
        by (auto split: option.splits)
      have "fst (snd st) = c"
      proof (rule for_break_inv [where I = "\<lambda>s. fst (snd s) = c", OF _ _ st])
        fix m s q
        assume "m \<in> set (qs_moves lib (cur c))" "fst (snd s) = c"
          "qs_step qs lib (pos_in_check (cur c)) stand mx m s = Some q"
        then show "fst (snd (snd q)) = c"
          using qs_step_keeps [OF k] qs_moves_subset by blast
      qed simp
      with rr show ?thesis by simp
    qed
  qed
qed

lemma quiescence_with_keeps: "qs_keeps (quiescence_with ev fuel lib)"
proof (induction fuel)
  case 0
  show ?case by (simp add: qs_keeps_def)
next
  case (Suc fuel)
  then show ?case by (simp add: quiescence_body_keeps)
qed

lemma quiescence_keeps: "qs_keeps (quiescence fuel lib)"
  by (simp add: quiescence_def quiescence_with_keeps)


lemma razor_keeps:
  assumes k: "qs_keeps qs" and r: "razor qs lib g c depth alpha mx = Some rz"
  shows "snd (snd (snd rz)) = c"
proof -
  have q: "\<And>a b m q. qs g c a b m = Some q \<Longrightarrow> snd (snd q) = c"
    using k unfolding qs_keeps_def by blast
  from r show ?thesis
    by (auto simp: razor_def Let_def split: if_splits option.splits dest!: q)
qed

lemma pvs_search_keeps:
  assumes k: "ab_keeps ab" and r: "pvs_search ab ctx d g c a b = Some r"
  shows "snd (snd r) = c"
proof -
  define lo where "lo = (if c_maximizing ctx then a else b - 1)"
  define hi where "hi = (if c_maximizing ctx then a + 1 else b)"
  from r obtain r1 where r1: "ab g c d lo hi (\<not> c_maximizing ctx) (c_ply ctx + 1) = Some r1"
    by (auto simp: pvs_search_def Let_def lo_def hi_def split: option.splits)
  with k have c1: "snd (snd r1) = c"
    unfolding ab_keeps_def by blast
  show ?thesis
  proof (cases "fst r1 > a \<and> fst r1 < b")
    case True
    with r r1 have "ab (fst (snd r1)) (snd (snd r1)) (c_depth ctx - 1) a b (\<not> c_maximizing ctx)
        (c_ply ctx + 1) = Some r"
      by (simp add: pvs_search_def Let_def lo_def hi_def)
    with k have "snd (snd r) = snd (snd r1)"
      unfolding ab_keeps_def by blast
    with c1 show ?thesis by simp
  next
    case False
    with r r1 have "r = r1"
      by (auto simp: pvs_search_def Let_def lo_def hi_def)
    with c1 show ?thesis by simp
  qed
qed

lemma search_move_keeps:
  assumes k: "ab_keeps ab" and r: "search_move ab lib ctx mi m sf g c a b = Some r"
  shows "snd (snd r) = c"
proof (cases sf)
  case False
  with r have "ab g c (c_depth ctx - 1) a b (\<not> c_maximizing ctx) (c_ply ctx + 1) = Some r"
    by (simp add: search_move_def Let_def)
  with k show ?thesis unfolding ab_keeps_def by blast
next
  case True
  with r obtain d where "pvs_search ab ctx d g c a b = Some r"
    by (auto simp: search_move_def Let_def split: if_splits)
  then show ?thesis by (rule pvs_search_keeps [OF k])
qed

lemma ab_update_chess: "s_chess (ab_update ctx m score st) = s_chess st"
  by (simp add: ab_update_def Let_def)

lemma ab_step_keeps:
  assumes k: "ab_keeps ab" and m: "snd im \<in> set (lib_moves lib (cur c))"
    and c: "s_chess st = c" and r: "ab_step ab lib ctx im st = Some r"
  shows "s_chess (snd r) = c"
proof (cases "futility_skip ctx st (snd im)")
  case True
  with r c show ?thesis by (auto simp: ab_step_def Let_def)
next
  case nf: False
  define counts where "counts = (\<not> c_inCheckNow ctx \<and> c_depth ctx \<le> 2 \<and> is_quiet (snd im)
      \<and> s_searchedFirst st)"
  define st1 where "st1 = (if counts then st\<lparr>s_quietSearched := s_quietSearched st + 1\<rparr> else st)"
  define lmp where "lmp = (counts \<and> (case arr_num LMP_THRESHOLD (c_depth ctx) of
                     None \<Rightarrow> False | Some t \<Rightarrow> of_nat (s_quietSearched st1) > t))"
  define g1 where "g1 = (s_g st1)\<lparr>g_moveStack := (g_moveStack (s_g st1))(c_ply ctx \<mapsto> key_pft (snd im))\<rparr>"
  have c1: "s_chess st1 = c"
    using c by (simp add: st1_def)
  have step: "ab_step ab lib ctx im st =
     (if lmp then Some (False, st1)
      else (case search_move ab lib ctx (fst im) (snd im) (s_searchedFirst st1) g1
                   (chess_move lib (s_chess st1) (snd im)) (s_alpha st1) (s_beta st1) of
              None \<Rightarrow> None
            | Some r \<Rightarrow>
                (let st2 = ab_update ctx (snd im) (fst r)
                             (st1\<lparr>s_g := fst (snd r), s_chess := chess_undo (snd (snd r)),
                                  s_searchedFirst := True\<rparr>)
                 in if s_alpha st2 \<ge> s_beta st2
                    then Some (True, st2\<lparr>s_g := ab_cutoff ctx (snd im) (s_g st2)\<rparr>)
                    else Some (False, st2))))"
    using nf unfolding ab_step_def Let_def lmp_def st1_def counts_def g1_def by simp
  show ?thesis
  proof (cases lmp)
    case True
    with r step c1 show ?thesis by auto
  next
    case False
    with r step obtain q where
      q: "search_move ab lib ctx (fst im) (snd im) (s_searchedFirst st1) g1
            (chess_move lib (s_chess st1) (snd im)) (s_alpha st1) (s_beta st1) = Some q"
      by (auto split: option.splits)
    have "snd (snd q) = chess_move lib c (snd im)"
      using search_move_keeps [OF k q] c1 by simp
    then have u: "chess_undo (snd (snd q)) = c"
      using chess_move_undo [OF m] by simp
    from r step False q u show ?thesis
      by (auto simp: Let_def ab_update_chess split: if_splits)
  qed
qed

lemma set_orderMoves: "set (orderMoves g ms ply pk tt) = set ms"
  by (simp add: orderMoves_def)

lemma ab_moves_keeps:
  assumes k: "ab_keeps ab" and sub: "set rawMoves \<subseteq> set (lib_moves lib (cur c))"
    and r: "ab_moves ab lib rawMoves se g c depth a b mx ply = Some r"
  shows "snd (snd r) = c"
proof -
  define pk where "pk = (if ply > 0 then g_moveStack g (ply - 1) else None)"
  define moves where "moves = orderMoves g rawMoves ply pk (ttGetMove (g_tt g) (pos_fen (cur c)))"
  define ctx where "ctx = \<lparr>c_depth = depth, c_maximizing = mx, c_ply = ply,
                 c_inCheckNow = pos_in_check (cur c), c_staticEval = se,
                 c_prevMoveKey = pk\<rparr>"
  define st0 where "st0 = \<lparr>s_g = g, s_chess = c, s_alpha = a, s_beta = b,
                 s_best = (if mx then - INFINITY else INFINITY), s_bestMove = None,
                 s_searchedFirst = False, s_quietSearched = 0\<rparr>"
  from r obtain st where
    st: "for_break (ab_step ab lib ctx) (zip [0 ..< length moves] moves) st0 = Some st"
    and rr: "snd (snd r) = s_chess st"
    unfolding ab_moves_def Let_def pk_def [symmetric] moves_def [symmetric]
      ctx_def [symmetric] st0_def [symmetric]
    by (auto split: option.splits)
  have "s_chess st = c"
  proof (rule for_break_inv [where I = "\<lambda>s. s_chess s = c", OF _ _ st])
    fix im s q
    assume im: "im \<in> set (zip [0 ..< length moves] moves)" and s: "s_chess s = c"
      and q: "ab_step ab lib ctx im s = Some q"
    from im have "snd im \<in> set moves"
      by (metis in_set_zipE prod.collapse)
    then have "snd im \<in> set (lib_moves lib (cur c))"
      using sub by (auto simp: moves_def set_orderMoves)
    then show "s_chess (snd q) = c"
      using ab_step_keeps [OF k _ s q] by simp
  qed (simp add: st0_def)
  with rr show ?thesis by simp
qed

lemma alphaBeta_body_keeps:
  assumes k: "ab_keeps ab" and kq: "qs_keeps qs"
  shows "ab_keeps (alphaBeta_body ab qs lib)"
  unfolding ab_keeps_def
proof (intro allI impI)
  fix g c d a b mx ply r
  assume r: "alphaBeta_body ab qs lib g c d a b mx ply = Some r"
  define g1 where "g1 = g\<lparr>g_nodes := g_nodes g + 1\<rparr>"
  define al where "al = max a (- (30000 - of_nat ply))"
  define be where "be = min b (30000 - of_nat ply)"
  define rest where "rest =
     (case null_move ab lib g1 c d al be mx ply of
        None \<Rightarrow> None
      | Some nm \<Rightarrow>
          (case fst nm of
             Some v \<Rightarrow> Some (v, snd nm, c)
           | None \<Rightarrow>
               (case razor qs lib (snd nm) c d al mx of
                  None \<Rightarrow> None
                | Some rz \<Rightarrow>
                    (case fst rz of
                       Some v \<Rightarrow> Some (v, snd (snd rz))
                     | None \<Rightarrow>
                         ab_moves ab lib (lib_moves lib (cur c)) (fst (snd rz))
                           (fst (snd (snd rz))) (snd (snd (snd rz)))
                           d al be mx ply))))"
  have body: "alphaBeta_body ab qs lib g c d a b mx ply =
      (if al \<ge> be then Some (al, g1, c)
       else (case ttGet (g_tt g1) (pos_fen (cur c)) d al be of
              Some ttHit \<Rightarrow> Some (ttHit, g1, c)
            | None \<Rightarrow>
                if d = 0 then qs g1 c al be mx
                else if game_over (cur c) then Some (evaluate lib (cur c) False, g1, c)
                else if lib_moves lib (cur c) = []
                then Some (evaluate lib (cur c) False, g1, c)
                else rest))"
    unfolding alphaBeta_body_def Let_def g1_def al_def be_def rest_def by (rule refl)
  have rest_keeps: "snd (snd r) = c" if rr: "rest = Some r"
  proof -
    from rr obtain nm where nm: "null_move ab lib g1 c d al be mx ply = Some nm"
      by (auto simp: rest_def split: option.splits)
    show ?thesis
    proof (cases "fst nm")
      case (Some v)
      with rr nm show ?thesis by (auto simp: rest_def)
    next
      case None
      with rr nm obtain rz where rz: "razor qs lib (snd nm) c d al mx = Some rz"
        by (auto simp: rest_def split: option.splits)
      have cz: "snd (snd (snd rz)) = c"
        by (rule razor_keeps [OF kq rz])
      show ?thesis
      proof (cases "fst rz")
        case (Some v)
        with rr nm None rz cz show ?thesis by (auto simp: rest_def)
      next
        case nv: None
        with rr nm None rz cz have
          "ab_moves ab lib (lib_moves lib (cur c)) (fst (snd rz))
             (fst (snd (snd rz))) c d al be mx ply = Some r"
          by (auto simp: rest_def)
        then show ?thesis
          by (rule ab_moves_keeps [OF k subset_refl])
      qed
    qed
  qed
  show "snd (snd r) = c"
  proof (cases "al \<ge> be")
    case True
    with r body show ?thesis by auto
  next
    case nab: False
    show ?thesis
    proof (cases "ttGet (g_tt g1) (pos_fen (cur c)) d al be")
      case (Some hit)
      with r body nab show ?thesis by auto
    next
      case None
      show ?thesis
      proof (cases "d = 0")
        case True
        with r body nab None have "qs g1 c al be mx = Some r" by simp
        with kq show ?thesis unfolding qs_keeps_def by blast
      next
        case False
        with r body nab None rest_keeps show ?thesis
          by (auto split: if_splits)
      qed
    qed
  qed
qed

lemma alphaBeta_keeps: "ab_keeps (alphaBeta fuel lib)"
proof (induction fuel)
  case 0
  show ?case by (simp add: ab_keeps_def)
next
  case (Suc fuel)
  then show ?case by (simp add: alphaBeta_body_keeps quiescence_keeps)
qed

lemma aspiration_keeps:
  assumes k: "ab_keeps ab" and r: "aspiration ab mx d prev g c = Some r"
  shows "snd (snd r) = c"
proof -
  have q: "\<And>g c' d a b m ply q. c' = c \<Longrightarrow> ab g c' d a b m ply = Some q \<Longrightarrow> snd (snd q) = c"
    using k unfolding ab_keeps_def by blast
  show ?thesis
  proof (cases "d > 1")
    case False
    with r show ?thesis by (auto simp: aspiration_def dest: q [OF refl])
  next
    case True
    define lo where "lo = prev - ASP_DELTA"
    define hi where "hi = prev + ASP_DELTA"
    define lo3 where "lo3 = prev - ASP_DELTA * 3"
    define hi3 where "hi3 = prev + ASP_DELTA * 3"
    from r True obtain r1 where r1: "ab g c (d - 1) lo hi (\<not> mx) 0 = Some r1"
      by (auto simp: aspiration_def Let_def lo_def hi_def split: option.splits)
    have c1: "snd (snd r1) = c" by (rule q [OF refl r1])
    show ?thesis
    proof (cases "fst r1 \<le> lo \<or> fst r1 \<ge> hi")
      case False
      with r True r1 have "r = r1"
        by (auto simp: aspiration_def Let_def lo_def hi_def)
      with c1 show ?thesis by simp
    next
      case f1: True
      with r True r1 obtain r2 where
        r2: "ab (fst (snd r1)) (snd (snd r1)) (d - 1) lo3 hi3 (\<not> mx) 0 = Some r2"
        by (auto simp: aspiration_def Let_def lo_def hi_def lo3_def hi3_def split: option.splits)
      have c2: "snd (snd r2) = c" by (rule q [OF c1 r2])
      show ?thesis
      proof (cases "fst r2 \<le> lo3 \<or> fst r2 \<ge> hi3")
        case False
        with r True r1 f1 r2 have "r = r2"
          by (auto simp: aspiration_def Let_def lo_def hi_def lo3_def hi3_def)
        with c2 show ?thesis by simp
      next
        case f2: True
        with r True r1 f1 r2 have
          "ab (fst (snd r2)) (snd (snd r2)) (d - 1) (- INFINITY) INFINITY (\<not> mx) 0 = Some r"
          by (auto simp: aspiration_def Let_def lo_def hi_def lo3_def hi3_def)
        then show ?thesis by (rule q [OF c2])
      qed
    qed
  qed
qed

lemma deepen_step_keeps:
  assumes k: "ab_keeps ab" and c: "snd (snd (snd st)) = c"
    and r: "deepen_step ab mx d st = Some r"
  shows "snd (snd (snd (snd r))) = c"
proof -
  from r obtain q where
    q: "aspiration ab mx d (fst (snd st)) (fst (snd (snd st))) (snd (snd (snd st))) = Some q"
    by (auto simp: deepen_step_def Let_def split: option.splits)
  have "snd (snd q) = c"
    using aspiration_keeps [OF k q] c by simp
  with r q show ?thesis
    by (auto simp: deepen_step_def Let_def split: if_splits)
qed

lemma deepen_keeps:
  assumes k: "ab_keeps ab" and r: "deepen ab mx depth g c = Some r"
  shows "snd (snd r) = c"
proof -
  from r obtain st where st: "for_break (deepen_step ab mx) [1..depth] (0, 0, g, c) = Some st"
    and rr: "r = (fst st, snd (snd st))"
    by (auto simp: deepen_def split: option.splits)
  have "snd (snd (snd st)) = c"
  proof (rule for_break_inv [where I = "\<lambda>s. snd (snd (snd s)) = c", OF _ _ st])
    fix d s q
    assume "snd (snd (snd s)) = c" "deepen_step ab mx d s = Some q"
    then show "snd (snd (snd (snd q))) = c"
      using deepen_step_keeps [OF k] by blast
  qed simp
  with rr show ?thesis by simp
qed

lemma aspiration_spec:
  "1 \<le> d \<Longrightarrow> aspiration ab mx d prev g c = spec_try ab mx d (spec_windows d prev) g c"
  by (auto simp: aspiration_def spec_windows_def ASP_DELTA_def Let_def not_le not_less
      split: option.splits)

lemma deepen_loop_spec:
  "\<forall>d \<in> set ds. 1 \<le> d \<Longrightarrow>
   (case for_break (deepen_step ab mx) ds (score, prev, g, c) of
      None \<Rightarrow> None | Some st \<Rightarrow> Some (fst st, snd (snd st)))
   = spec_deepen ab mx ds score prev g c"
proof (induction ds arbitrary: score prev g c)
  case Nil
  show ?case by simp
next
  case (Cons d ds)
  then have d: "1 \<le> d" and ds: "\<forall>d \<in> set ds. 1 \<le> d" by simp_all
  note asp = aspiration_spec [OF d, of ab mx prev g c]
  show ?case
  proof (cases "spec_try ab mx d (spec_windows d prev) g c")
    case None
    with asp show ?thesis by (simp add: deepen_step_def)
  next
    case (Some r)
    show ?thesis
    proof (cases "\<bar>fst r\<bar> \<ge> 29000")
      case True
      with Some asp show ?thesis by (simp add: deepen_step_def)
    next
      case False
      with Some asp Cons.IH [OF ds, of "fst r" "fst r" "fst (snd r)" "snd (snd r)"]
      show ?thesis by (simp add: deepen_step_def)
    qed
  qed
qed

lemma deepen_spec: "deepen ab mx depth g c = spec_deepen ab mx [1..depth] 0 0 g c"
  unfolding deepen_def by (rule deepen_loop_spec) simp

lemma root_step_inv:
  assumes k: "ab_keeps ab" and m: "m \<in> set (lib_moves lib (cur c0))"
    and c: "snd (snd st) = c0"
    and ok: "\<forall>l \<in> set (fst st). line_from ab lib mx depth c0 l"
    and r: "root_step ab lib mx depth m st = Some q"
  shows "snd (snd (snd q)) = c0 \<and> (\<forall>l \<in> set (fst (snd q)). line_from ab lib mx depth c0 l)"
proof -
  from r c obtain d where d: "deepen ab mx depth (fst (snd st)) (chess_move lib c0 m) = Some d"
    and q: "q = (False, (fst st @ [\<lparr>l_move = m, l_score = (if mx then fst d else - fst d)\<rparr>],
                 fst (snd d), chess_undo (snd (snd d))))"
    by (auto simp: root_step_def Let_def split: option.splits)
  have "snd (snd d) = chess_move lib c0 m"
    by (rule deepen_keeps [OF k d])
  then have u: "chess_undo (snd (snd d)) = c0"
    using chess_move_undo [OF m] by simp
  have new: "line_from ab lib mx depth c0 \<lparr>l_move = m, l_score = (if mx then fst d else - fst d)\<rparr>"
    unfolding line_from_def
    by (intro conjI exI [of _ "fst (snd st)"] exI [of _ d]) (simp_all add: m d)
  show ?thesis
    unfolding q using u ok new by simp
qed

lemma searchRoot_lines:
  assumes r: "searchRoot fuel lib g0 fen depth multiPV = Some res"
  shows "\<exists>p. lib_load lib fen = Some p \<and> snd (snd res) = \<lparr>cur = p, hist = []\<rparr> \<and>
     (\<forall>l \<in> set (fst res).
        line_from (alphaBeta fuel lib) lib (pos_turn p = White) depth \<lparr>cur = p, hist = []\<rparr> l)"
proof -
  from r obtain p where p: "lib_load lib fen = Some p"
    by (auto simp: searchRoot_def chess_new_def split: option.splits)
  define c0 where "c0 = \<lparr>cur = p, hist = []\<rparr>"
  define mx where "mx = (pos_turn p = White)"
  have cn: "chess_new lib fen = Some c0"
    using p by (simp add: chess_new_def c0_def)
  have cur: "cur c0 = p" by (simp add: c0_def)
  have goal: "snd (snd res) = c0 \<and>
      (\<forall>l \<in> set (fst res). line_from (alphaBeta fuel lib) lib mx depth c0 l)"
  proof (cases "lib_moves lib p = []")
    case True
    with r cn cur have "res = ([], reset_globals g0, c0)"
      by (simp add: searchRoot_def Let_def)
    then show ?thesis by simp
  next
    case False
    with r cn cur obtain st where
      st: "for_break (root_step (alphaBeta fuel lib) lib mx depth) (lib_moves lib p)
             ([], reset_globals g0, c0) = Some st"
      and res: "res = (js_slice0 (sort_key (\<lambda>r. - l_score r) (fst st)) multiPV, snd st)"
      by (auto simp: searchRoot_def Let_def mx_def split: option.splits)
    have inv: "snd (snd st) = c0 \<and>
       (\<forall>l \<in> set (fst st). line_from (alphaBeta fuel lib) lib mx depth c0 l)"
    proof (rule for_break_inv [where I = "\<lambda>s. snd (snd s) = c0 \<and>
       (\<forall>l \<in> set (fst s). line_from (alphaBeta fuel lib) lib mx depth c0 l)", OF _ _ st])
      fix m s q
      assume m: "m \<in> set (lib_moves lib p)"
        and s: "snd (snd s) = c0 \<and>
          (\<forall>l \<in> set (fst s). line_from (alphaBeta fuel lib) lib mx depth c0 l)"
        and q: "root_step (alphaBeta fuel lib) lib mx depth m s = Some q"
      from m have m': "m \<in> set (lib_moves lib (cur c0))" by (simp add: cur)
      from s have s1: "snd (snd s) = c0"
        and s2: "\<forall>l \<in> set (fst s). line_from (alphaBeta fuel lib) lib mx depth c0 l"
        by simp_all
      show "snd (snd (snd q)) = c0 \<and>
          (\<forall>l \<in> set (fst (snd q)). line_from (alphaBeta fuel lib) lib mx depth c0 l)"
        by (rule root_step_inv [OF alphaBeta_keeps m' s1 s2 q])
    qed simp
    have sub: "set (fst res) \<subseteq> set (fst st)"
      unfolding res using set_js_slice0 [of "sort_key (\<lambda>r. - l_score r) (fst st)" multiPV]
      by simp
    from inv sub res show ?thesis by auto
  qed
  with p show ?thesis unfolding c0_def mx_def by blast
qed

section \<open>Quiescence in check and the mobility term\<close>







section \<open>The deepening loop of the root driver\<close>

lemma root_step_spec:
  assumes k: "ab_keeps ab" and m: "m \<in> set (lib_moves lib (cur c))"
  shows "root_step ab lib mx depth m (acc, g, c)
     = (case spec_deepen ab mx [1..depth] 0 0 g (chess_move lib c m) of
          None \<Rightarrow> None
        | Some r \<Rightarrow>
            Some (False, (acc @ [\<lparr>l_move = m, l_score = (if mx then fst r else - fst r)\<rparr>],
                          fst (snd r), c)))"
proof (cases "deepen ab mx depth g (chess_move lib c m)")
  case None
  then show ?thesis
    using deepen_spec [of ab mx depth g "chess_move lib c m"] by (simp add: root_step_def)
next
  case (Some r)
  have "snd (snd r) = chess_move lib c m"
    by (rule deepen_keeps [OF k Some])
  then have u: "chess_undo (snd (snd r)) = c"
    using chess_move_undo [OF m] by simp
  show ?thesis
    using Some u deepen_spec [of ab mx depth g "chess_move lib c m"]
    by (simp add: root_step_def)
qed

lemma root_loop_spec:
  assumes k: "ab_keeps ab"
  shows "set ms \<subseteq> set (lib_moves lib (cur c)) \<Longrightarrow>
    for_break (root_step ab lib mx depth) ms (acc, g, c)
     = (case spec_root_moves ab lib mx depth ms g c of
          None \<Rightarrow> None
        | Some r \<Rightarrow> Some (acc @ fst r, snd r, c))"
proof (induction ms arbitrary: acc g)
  case Nil
  show ?case by simp
next
  case (Cons m ms)
  then have m: "m \<in> set (lib_moves lib (cur c))" and ms: "set ms \<subseteq> set (lib_moves lib (cur c))"
    by simp_all
  note step = root_step_spec [OF k m, where mx = mx and depth = depth and acc = acc and g = g]
  show ?case
  proof (cases "spec_deepen ab mx [1..depth] 0 0 g (chess_move lib c m)")
    case None
    with step show ?thesis by simp
  next
    case (Some r)
    with step Cons.IH [OF ms, where acc = "acc @ [\<lparr>l_move = m, l_score = (if mx then fst r else - fst r)\<rparr>]"
        and g = "fst (snd r)"]
    show ?thesis by (simp split: option.splits)
  qed
qed

lemma searchRoot_spec:
  "map_option (\<lambda>r. (fst r, fst (snd r))) (searchRoot fuel lib g0 fen depth multiPV)
     = spec_searchRoot (alphaBeta fuel lib) lib g0 fen depth multiPV"
proof (cases "lib_load lib fen")
  case None
  then show ?thesis by (simp add: searchRoot_def spec_searchRoot_def chess_new_def)
next
  case (Some p)
  define c0 where "c0 = \<lparr>cur = p, hist = []\<rparr>"
  have cn: "chess_new lib fen = Some c0"
    using Some by (simp add: chess_new_def c0_def)
  have cur: "cur c0 = p" by (simp add: c0_def)
  have sub: "set (lib_moves lib p) \<subseteq> set (lib_moves lib (cur c0))"
    by (simp add: cur)
  note loop = root_loop_spec [OF alphaBeta_keeps sub, where mx = "pos_turn p = White"
      and depth = depth and acc = "[]" and g = "reset_globals g0" and fuel1 = fuel]
  show ?thesis
  proof (cases "lib_moves lib p = []")
    case True
    then show ?thesis
      using Some cn cur
      by (simp add: searchRoot_def spec_searchRoot_def Let_def c0_def [symmetric] js_slice0_def)
  next
    case False
    then show ?thesis
      using Some cn cur loop
      by (simp add: searchRoot_def spec_searchRoot_def Let_def c0_def [symmetric]
          split: option.splits)
  qed
qed

text \<open>
  Claim C5. \<open>searchRoot\<close> is the root driver of the specification run with \<open>alphaBeta\<close>:
  it returns the same lines and leaves the same tables. For every root move, in
  enumeration order, the driver runs the deepening loop of the specification: for
  \<open>d = 1\<close> one search with the full window; for \<open>d \<ge> 2\<close> the window
  \<open>[prev - 50, prev + 50]\<close>, on a score at or outside its bounds the window
  \<open>[prev - 150, prev + 150]\<close>, on a second miss the full window; and the loop ends at the
  first iteration whose score has absolute value 29000 or more. (The search of iteration
  \<open>d\<close> is called with depth \<open>d - 1\<close>, the root move being made already.)
\<close>

theorem root_deepening_windows:
  "map_option (\<lambda>r. (fst r, fst (snd r))) (searchRoot fuel lib g0 fen depth multiPV)
     = spec_searchRoot (alphaBeta fuel lib) lib g0 fen depth multiPV
   \<and> deepen ab mx depth g c = spec_deepen ab mx [1..depth] 0 0 g c"
  using searchRoot_spec deepen_spec by blast

theorem root_deepening_windows_witness:
  "map_option fst (spec_searchRoot (alphaBeta 2 kp_lib) kp_lib fresh_globals kp_fen 1 1)
     = Some [\<lparr>l_move = kp_move, l_score = - (323 / 2)\<rparr>]
   \<and> map_option fst (spec_deepen (alphaBeta 2 kp_lib) False [1..1] 0 0 fresh_globals
        \<lparr>cur = kp_child, hist = []\<rparr>) = Some (323 / 2)"
proof -
  have s: "map_option fst (searchRoot 2 kp_lib fresh_globals kp_fen 1 1)
     = Some [\<lparr>l_move = kp_move, l_score = - (323 / 2)\<rparr>]"
    by code_simp
  have d: "map_option fst (deepen (alphaBeta 2 kp_lib) False 1 fresh_globals
      \<lparr>cur = kp_child, hist = []\<rparr>) = Some (323 / 2)"
    by code_simp
  note t = root_deepening_windows [where fuel = 2 and lib = kp_lib and ?g0.0 = fresh_globals
      and fen = kp_fen and depth = 1 and multiPV = 1 and ab = "alphaBeta 2 kp_lib"
      and mx = False and g = fresh_globals and c = "\<lparr>cur = kp_child, hist = []\<rparr>"]
  from t have e: "spec_searchRoot (alphaBeta 2 kp_lib) kp_lib fresh_globals kp_fen 1 1
      = map_option (\<lambda>r. (fst r, fst (snd r))) (searchRoot 2 kp_lib fresh_globals kp_fen 1 1)"
    by simp
  have a: "map_option fst (spec_searchRoot (alphaBeta 2 kp_lib) kp_lib fresh_globals kp_fen 1 1)
     = Some [\<lparr>l_move = kp_move, l_score = - (323 / 2)\<rparr>]"
    unfolding e using s by (simp add: option.map_comp comp_def)
  from t d have b: "map_option fst (spec_deepen (alphaBeta 2 kp_lib) False [1..1] 0 0 fresh_globals
        \<lparr>cur = kp_child, hist = []\<rparr>) = Some (323 / 2)"
    by simp
  from a b show ?thesis by (rule conjI)
qed

section \<open>The position after a search\<close>

text \<open>
  Claim C9. When \<open>searchRoot\<close> returns, the chess object it worked on is the object as
  \<open>new Chess(fen)\<close> built it: the same position, hence the same FEN, and an empty undo
  history. The same holds of every call of \<open>alphaBeta\<close> and of \<open>quiescence\<close> that
  returns: each hands back the object it was given, every move it made being undone.
\<close>

theorem search_restores_position:
  "(searchRoot fuel lib g0 fen depth multiPV = Some res \<longrightarrow>
      chess_new lib fen = Some (snd (snd res)))
   \<and> (alphaBeta fuel lib g c d a b mx ply = Some r \<longrightarrow> snd (snd r) = c)
   \<and> (quiescence fuel lib g c a b mx = Some r' \<longrightarrow> snd (snd r') = c)"
proof -
  have 1: "searchRoot fuel lib g0 fen depth multiPV = Some res \<longrightarrow>
      chess_new lib fen = Some (snd (snd res))"
  proof
    assume "searchRoot fuel lib g0 fen depth multiPV = Some res"
    from searchRoot_lines [OF this] show "chess_new lib fen = Some (snd (snd res))"
      by (auto simp: chess_new_def)
  qed
  have 2: "alphaBeta fuel lib g c d a b mx ply = Some r \<longrightarrow> snd (snd r) = c"
    using alphaBeta_keeps [of fuel lib] unfolding ab_keeps_def by blast
  have 3: "quiescence fuel lib g c a b mx = Some r' \<longrightarrow> snd (snd r') = c"
    using quiescence_keeps [of fuel lib] unfolding qs_keeps_def by blast
  from 1 2 3 show ?thesis by blast
qed

theorem search_restores_position_witness:
  "searchRoot 2 kp_lib fresh_globals kp_fen 1 1 \<noteq> None
   \<and> map_option (\<lambda>res. snd (snd res)) (searchRoot 2 kp_lib fresh_globals kp_fen 1 1)
       = chess_new kp_lib kp_fen
   \<and> chess_new kp_lib kp_fen = Some \<lparr>cur = kp_pos, hist = []\<rparr>
   \<and> pos_fen kp_pos = kp_fen"
proof -
  have "map_option fst (searchRoot 2 kp_lib fresh_globals kp_fen 1 1)
      = Some [\<lparr>l_move = kp_move, l_score = - (323 / 2)\<rparr>]"
    by code_simp
  then obtain res where res: "searchRoot 2 kp_lib fresh_globals kp_fen 1 1 = Some res"
    by auto
  from search_restores_position [of 2 kp_lib fresh_globals kp_fen 1 1 res] res
  have a: "chess_new kp_lib kp_fen = Some (snd (snd res))"
    by blast
  have b: "chess_new kp_lib kp_fen = Some \<lparr>cur = kp_pos, hist = []\<rparr>"
    by code_simp
  have c: "pos_fen kp_pos = kp_fen"
    by (simp add: kp_pos_def mk_pos_def)
  from res a b c show ?thesis by simp
qed

section \<open>The sign of the scores of the root driver\<close>

lemma root_loop_index:
  assumes k: "ab_keeps ab"
  shows "set ms \<subseteq> set (lib_moves lib (cur c)) \<Longrightarrow>
    for_break (root_step ab lib mx depth) ms (acc, g, c) = Some st \<Longrightarrow>
    \<exists>gs rs. length rs = length ms \<and> length gs = Suc (length ms) \<and> gs ! 0 = g
      \<and> (\<forall>i < length ms.
            deepen ab mx depth (gs ! i) (chess_move lib c (ms ! i)) = Some (rs ! i)
            \<and> gs ! Suc i = fst (snd (rs ! i)))
      \<and> st = (acc @ map2 (\<lambda>m r. \<lparr>l_move = m, l_score = (if mx then fst r else - fst r)\<rparr>) ms rs,
              gs ! length ms, c)"
proof (induction ms arbitrary: acc g)
  case Nil
  then have "st = (acc, g, c)" by simp
  then show ?case
    by (intro exI [of _ "[g]"] exI [of _ "[]"]) simp
next
  case (Cons m ms)
  then have m: "m \<in> set (lib_moves lib (cur c))" and ms: "set ms \<subseteq> set (lib_moves lib (cur c))"
    by simp_all
  from Cons.prems(2) obtain r where r: "deepen ab mx depth g (chess_move lib c m) = Some r"
    by (auto simp: root_step_def Let_def split: option.splits)
  have "snd (snd r) = chess_move lib c m"
    by (rule deepen_keeps [OF k r])
  then have u: "chess_undo (snd (snd r)) = c"
    using chess_move_undo [OF m] by simp
  define ln where "ln = \<lparr>l_move = m, l_score = (if mx then fst r else - fst r)\<rparr>"
  have step: "root_step ab lib mx depth m (acc, g, c) = Some (False, (acc @ [ln], fst (snd r), c))"
    using r u by (simp add: root_step_def ln_def)
  with Cons.prems(2) have rest:
    "for_break (root_step ab lib mx depth) ms (acc @ [ln], fst (snd r), c) = Some st"
    by simp
  from Cons.IH [OF ms rest] obtain gs rs where
    l: "length rs = length ms" "length gs = Suc (length ms)" "gs ! 0 = fst (snd r)"
    and th: "\<forall>i < length ms.
            deepen ab mx depth (gs ! i) (chess_move lib c (ms ! i)) = Some (rs ! i)
            \<and> gs ! Suc i = fst (snd (rs ! i))"
    and st: "st = ((acc @ [ln])
                   @ map2 (\<lambda>m r. \<lparr>l_move = m, l_score = (if mx then fst r else - fst r)\<rparr>) ms rs,
              gs ! length ms, c)"
    by blast
  have th': "\<forall>i < length (m # ms).
            deepen ab mx depth ((g # gs) ! i) (chess_move lib c ((m # ms) ! i)) = Some ((r # rs) ! i)
            \<and> (g # gs) ! Suc i = fst (snd ((r # rs) ! i))"
  proof (intro allI impI)
    fix i assume i: "i < length (m # ms)"
    show "deepen ab mx depth ((g # gs) ! i) (chess_move lib c ((m # ms) ! i)) = Some ((r # rs) ! i)
            \<and> (g # gs) ! Suc i = fst (snd ((r # rs) ! i))"
    proof (cases i)
      case 0
      then show ?thesis using r l(3) by simp
    next
      case (Suc j)
      with i have "j < length ms" by simp
      with th Suc show ?thesis by simp
    qed
  qed
  have st': "st = (acc @ map2 (\<lambda>m r. \<lparr>l_move = m, l_score = (if mx then fst r else - fst r)\<rparr>)
                          (m # ms) (r # rs),
              (g # gs) ! length (m # ms), c)"
    using st by (simp add: ln_def)
  show ?case
    using l th' st' by (intro exI [of _ "g # gs"] exI [of _ "r # rs"]) simp
qed

text \<open>
  Claim C2, as stated, with Black to move. In the king and pawn ending Black's only move
  is Kh7. The position after it is better for White: its evaluation is 161.5 and the
  search from it returns 161.5. The line \<open>searchRoot\<close> returns for Kh7 has the score
  -161.5.
\<close>

theorem root_scores_counterexample:
  "map_option fst (searchRoot 2 kp_lib fresh_globals kp_fen 1 1)
     = Some [\<lparr>l_move = kp_move, l_score = - (323 / 2)\<rparr>]
   \<and> pos_turn kp_pos = Black
   \<and> lib_make kp_lib kp_pos kp_move = kp_child
   \<and> evaluate kp_lib kp_child False = 323 / 2
   \<and> map_option fst (alphaBeta 2 kp_lib fresh_globals \<lparr>cur = kp_child, hist = []\<rparr> 0
        (- INFINITY) INFINITY True 0) = Some (323 / 2)"
proof -
  have a: "map_option fst (searchRoot 2 kp_lib fresh_globals kp_fen 1 1)
     = Some [\<lparr>l_move = kp_move, l_score = - (323 / 2)\<rparr>]"
    by code_simp
  have b: "pos_turn kp_pos = Black"
    by code_simp
  have c: "lib_make kp_lib kp_pos kp_move = kp_child"
    by code_simp
  have d: "evaluate kp_lib kp_child False = 323 / 2"
    by code_simp
  have e: "map_option fst (alphaBeta 2 kp_lib fresh_globals \<lparr>cur = kp_child, hist = []\<rparr> 0
        (- INFINITY) INFINITY True 0) = Some (323 / 2)"
    by code_simp
  from a b c d e show ?thesis by blast
qed

text \<open>
  Claim C2 (amended). The lines \<open>searchRoot\<close> returns are the lines of the legal root
  moves, sorted by descending score and cut to \<open>multiPV\<close>. The score of the line of a
  root move is the score the deepening search returns for the position after that move
  when White is to move at the root, and the negation of that score when Black is to
  move: it is positive when the search finds the position better for the side to move at
  the root. The search of the first root move starts from the reset tables, the search of
  every later one from the tables the search before it left.
\<close>

theorem root_scores_root_side:
  assumes "searchRoot fuel lib g0 fen depth multiPV = Some res"
  shows "\<exists>p gs rs. lib_load lib fen = Some p
     \<and> length rs = length (lib_moves lib p) \<and> length gs = Suc (length rs)
     \<and> gs ! 0 = reset_globals g0
     \<and> (\<forall>i < length rs.
          deepen (alphaBeta fuel lib) (pos_turn p = White) depth (gs ! i)
            (chess_move lib \<lparr>cur = p, hist = []\<rparr> (lib_moves lib p ! i)) = Some (rs ! i)
          \<and> gs ! Suc i = fst (snd (rs ! i)))
     \<and> fst res
        = js_slice0
            (sort_key (\<lambda>l. - l_score l)
               (map2 (\<lambda>m r. \<lparr>l_move = m,
                              l_score = (if pos_turn p = White then fst r else - fst r)\<rparr>)
                  (lib_moves lib p) rs))
            multiPV"
proof -
  from assms obtain p where p: "lib_load lib fen = Some p"
    by (auto simp: searchRoot_def chess_new_def split: option.splits)
  define c0 where "c0 = \<lparr>cur = p, hist = []\<rparr>"
  define mx where "mx = (pos_turn p = White)"
  have cn: "chess_new lib fen = Some c0"
    using p by (simp add: chess_new_def c0_def)
  have cur: "cur c0 = p" by (simp add: c0_def)
  have sub: "set (lib_moves lib p) \<subseteq> set (lib_moves lib (cur c0))"
    by (simp add: cur)
  have "\<exists>st. for_break (root_step (alphaBeta fuel lib) lib mx depth) (lib_moves lib p)
             ([], reset_globals g0, c0) = Some st
      \<and> fst res = js_slice0 (sort_key (\<lambda>r. - l_score r) (fst st)) multiPV"
  proof (cases "lib_moves lib p = []")
    case True
    with assms cn cur have "res = ([], reset_globals g0, c0)"
      by (simp add: searchRoot_def Let_def)
    with True show ?thesis by (simp add: js_slice0_def)
  next
    case False
    with assms cn cur show ?thesis
      by (auto simp: searchRoot_def Let_def mx_def split: option.splits)
  qed
  then obtain st where
    st: "for_break (root_step (alphaBeta fuel lib) lib mx depth) (lib_moves lib p)
             ([], reset_globals g0, c0) = Some st"
    and res: "fst res = js_slice0 (sort_key (\<lambda>r. - l_score r) (fst st)) multiPV"
    by blast
  from root_loop_index [OF alphaBeta_keeps sub st] obtain gs rs where
    l: "length rs = length (lib_moves lib p)" "length gs = Suc (length (lib_moves lib p))"
       "gs ! 0 = reset_globals g0"
    and th: "\<forall>i < length (lib_moves lib p).
            deepen (alphaBeta fuel lib) mx depth (gs ! i) (chess_move lib c0 (lib_moves lib p ! i))
              = Some (rs ! i)
            \<and> gs ! Suc i = fst (snd (rs ! i))"
    and s: "st = ([] @ map2 (\<lambda>m r. \<lparr>l_move = m, l_score = (if mx then fst r else - fst r)\<rparr>)
                         (lib_moves lib p) rs,
              gs ! length (lib_moves lib p), c0)"
    by blast
  show ?thesis
    using p l th res unfolding s c0_def mx_def
    by (intro exI [of _ p] exI [of _ gs] exI [of _ rs]) simp
qed

theorem root_scores_root_side_witness:
  "searchRoot 2 pawn_lib fresh_globals pawn_fen 1 2 \<noteq> None
   \<and> (\<exists>res gs rs. searchRoot 2 pawn_lib fresh_globals pawn_fen 1 2 = Some res
        \<and> lib_load pawn_lib pawn_fen = Some pawn_pos \<and> pos_turn pawn_pos = White
        \<and> length (lib_moves pawn_lib pawn_pos) = 2
        \<and> gs ! 0 = reset_globals fresh_globals
        \<and> (\<forall>i < 2.
             deepen (alphaBeta 2 pawn_lib) True 1 (gs ! i)
               (chess_move pawn_lib \<lparr>cur = pawn_pos, hist = []\<rparr> (lib_moves pawn_lib pawn_pos ! i))
               = Some (rs ! i)
             \<and> gs ! Suc i = fst (snd (rs ! i)))
        \<and> fst res
           = js_slice0
               (sort_key (\<lambda>l. - l_score l)
                  (map2 (\<lambda>m r. \<lparr>l_move = m, l_score = fst r\<rparr>) (lib_moves pawn_lib pawn_pos) rs))
               2
        \<and> map l_score (fst res) = [27 / 8, 11 / 4])"
proof -
  have v: "map_option (\<lambda>res. map l_score (fst res)) (searchRoot 2 pawn_lib fresh_globals pawn_fen 1 2)
      = Some [27 / 8, 11 / 4]"
    by code_simp
  then obtain res where res: "searchRoot 2 pawn_lib fresh_globals pawn_fen 1 2 = Some res"
    and sc: "map l_score (fst res) = [27 / 8, 11 / 4]"
    by auto
  have ld: "lib_load pawn_lib pawn_fen = Some pawn_pos"
    by code_simp
  have w: "pos_turn pawn_pos = White"
    by code_simp
  have k: "length (lib_moves pawn_lib pawn_pos) = 2"
    by code_simp
  from root_scores_root_side [OF res] ld obtain gs rs where
    l: "length rs = length (lib_moves pawn_lib pawn_pos)" "gs ! 0 = reset_globals fresh_globals"
    and th: "\<forall>i < length rs.
          deepen (alphaBeta 2 pawn_lib) (pos_turn pawn_pos = White) 1 (gs ! i)
            (chess_move pawn_lib \<lparr>cur = pawn_pos, hist = []\<rparr> (lib_moves pawn_lib pawn_pos ! i))
            = Some (rs ! i)
          \<and> gs ! Suc i = fst (snd (rs ! i))"
    and r: "fst res
        = js_slice0
            (sort_key (\<lambda>l. - l_score l)
               (map2 (\<lambda>m r. \<lparr>l_move = m,
                              l_score = (if pos_turn pawn_pos = White then fst r else - fst r)\<rparr>)
                  (lib_moves pawn_lib pawn_pos) rs))
            2"
    by auto
  have th': "\<forall>i < 2.
             deepen (alphaBeta 2 pawn_lib) True 1 (gs ! i)
               (chess_move pawn_lib \<lparr>cur = pawn_pos, hist = []\<rparr> (lib_moves pawn_lib pawn_pos ! i))
               = Some (rs ! i)
             \<and> gs ! Suc i = fst (snd (rs ! i))"
    using th l(1) k w by simp
  have r': "fst res
           = js_slice0
               (sort_key (\<lambda>l. - l_score l)
                  (map2 (\<lambda>m r. \<lparr>l_move = m, l_score = fst r\<rparr>) (lib_moves pawn_lib pawn_pos) rs))
               2"
    using r w by simp
  from res have ne: "searchRoot 2 pawn_lib fresh_globals pawn_fen 1 2 \<noteq> None"
    by simp
  have "\<exists>res gs rs. searchRoot 2 pawn_lib fresh_globals pawn_fen 1 2 = Some res
        \<and> lib_load pawn_lib pawn_fen = Some pawn_pos \<and> pos_turn pawn_pos = White
        \<and> length (lib_moves pawn_lib pawn_pos) = 2
        \<and> gs ! 0 = reset_globals fresh_globals
        \<and> (\<forall>i < 2.
             deepen (alphaBeta 2 pawn_lib) True 1 (gs ! i)
               (chess_move pawn_lib \<lparr>cur = pawn_pos, hist = []\<rparr> (lib_moves pawn_lib pawn_pos ! i))
               = Some (rs ! i)
             \<and> gs ! Suc i = fst (snd (rs ! i)))
        \<and> fst res
           = js_slice0
               (sort_key (\<lambda>l. - l_score l)
                  (map2 (\<lambda>m r. \<lparr>l_move = m, l_score = fst r\<rparr>) (lib_moves pawn_lib pawn_pos) rs))
               2
        \<and> map l_score (fst res) = [27 / 8, 11 / 4]"
    using res ld w k l(2) th' r' sc
    by (intro exI [of _ res] exI [of _ gs] exI [of _ rs] conjI)
  with ne show ?thesis by (rule conjI)
qed

end
